theory Spec2Isabelle
  imports Main "HOL-Library.AList"
begin

section \<open>Data model\<close>

text \<open>
  The dashboard keeps all of its state in the browser's two key-value stores
  (\<^verbatim>\<open>localStorage\<close> and \<^verbatim>\<open>sessionStorage\<close>) and talks to the GitHub REST API.
  The model below follows \<^verbatim>\<open>scripts/storage.js\<close> and the API utilities module
  function by function. Exceptions are values of type \<open>error\<close>; a function that
  can throw returns \<open>error + 'r\<close>; a function that changes the stores, the page
  location or issues requests returns the new state as well; a function that may
  fail to return (the pagination loop, the recursion inside the quota handler)
  returns an \<open>option\<close>, with \<open>None\<close> for a call that never returns.
\<close>

datatype error =
    NO_TOKEN
  | INVALID_TOKEN
  | RATE_LIMIT_EXCEEDED
  | FORBIDDEN
  | API_ERROR nat
  | NetworkError
  | QuotaExceededError
  | STORAGE_QUOTA_EXCEEDED
  | SyntaxError

text \<open>
  \<open>NetworkError\<close> is the rejection of \<^verbatim>\<open>fetch\<close> itself (no response),
  \<open>QuotaExceededError\<close> the exception of \<^verbatim>\<open>Storage.setItem\<close>,
  \<open>SyntaxError\<close> the exception of \<^verbatim>\<open>JSON.parse\<close>; the others are the
  messages of the \<^verbatim>\<open>Error\<close> objects the program throws itself.
\<close>

record owner =
  owner_login :: string
  owner_avatar_url :: string
  owner_kind :: string

text \<open>A repository as the API returns it (the fields the program reads).\<close>

record apirepo =
  api_id :: int
  api_full_name :: string
  api_name :: string
  api_owner :: owner
  api_description :: "string option"
  api_private :: bool
  api_html_url :: string
  api_stargazers_count :: int
  api_watchers_count :: int
  api_forks_count :: int
  api_open_issues_count :: int
  api_language :: "string option"
  api_updated_at :: string
  api_created_at :: string
  api_archived :: bool

text \<open>A repository as \<^verbatim>\<open>fetchUserRepositories\<close> and
  \<^verbatim>\<open>fetchOrganizationRepositories\<close> build it.\<close>

record repo =
  repo_id :: int
  repo_full_name :: string
  repo_name :: string
  repo_owner :: owner
  repo_owner_type :: string
  repo_description :: string
  repo_private :: bool
  repo_html_url :: string
  repo_stargazers_count :: int
  repo_watchers_count :: int
  repo_forks_count :: int
  repo_open_issues_count :: int
  repo_language :: "string option"
  repo_updated_at :: string
  repo_created_at :: string
  repo_archived :: bool

record apiorg =
  apiorg_id :: int
  apiorg_login :: string
  apiorg_avatar_url :: string
  apiorg_description :: "string option"
  apiorg_url :: string

record org =
  org_id :: int
  org_login :: string
  org_avatar_url :: string
  org_description :: string
  org_url :: string

record userinfo =
  user_login :: string
  user_name :: string
  user_id :: int

text \<open>An entry of the tracked list, as \<^verbatim>\<open>addTrackedRepo\<close> builds it.\<close>

record tracked =
  tr_id :: int
  tr_full_name :: string
  tr_name :: string
  tr_owner :: owner
  tr_owner_type :: string
  tr_pinned :: bool
  tr_notes :: string

text \<open>
  The \<^verbatim>\<open>updates\<close> object of \<^verbatim>\<open>updateTrackedRepo\<close>: any subset of the
  fields of an entry; \<open>None\<close> is a field the object does not have.
\<close>

record updates =
  up_id :: "int option"
  up_full_name :: "string option"
  up_name :: "string option"
  up_owner :: "owner option"
  up_owner_type :: "string option"
  up_pinned :: "bool option"
  up_notes :: "string option"

text \<open>The values of a flat settings object.\<close>

datatype jv = JNull | JBool bool | JNum int | JStr string

text \<open>
  A cache entry \<^verbatim>\<open>{data, expires, timestamp}\<close>. The payload is of any type
  \<open>'a\<close>; \<open>None\<close> is the JavaScript \<^verbatim>\<open>null\<close>, which is also what
  \<^verbatim>\<open>getCachedValue\<close> answers when it has nothing to give.
\<close>

record 'a entry =
  data :: "'a option"
  expires :: int
  timestamp :: int

text \<open>
  What a store holds under a key is a string. \<open>Text t\<close> is a string kept as it
  is (the token, or any text that \<^verbatim>\<open>JSON.parse\<close> rejects), \<open>Num n\<close> the
  decimal text of a number, and each \<open>...Doc v\<close> the text
  \<^verbatim>\<open>JSON.stringify(v)\<close>, which \<^verbatim>\<open>JSON.parse\<close> turns back into \<open>v\<close>.
  A reader that finds a document of another shape than the one the program
  writes under that key treats it like rejected text.
\<close>

datatype 'a sval =
    Text string
  | Num int
  | UserDoc userinfo
  | OrgsDoc "org list"
  | TrackedDoc "tracked list"
  | SettingsDoc "string \<rightharpoonup> jv"
  | CacheDoc "string \<rightharpoonup> 'a entry"

type_synonym 'a storage = "string \<rightharpoonup> 'a sval"

datatype qval = QS string | QN nat

text \<open>A request URL: the path and the query parameters in their order.\<close>

record url =
  path :: string
  query :: "(string \<times> qval) list"

datatype 'b response =
    NetworkFailure
  | Http (status: nat) (rateLimitRemaining: "string option") (body: 'b)

text \<open>
  The program's state: the two stores, \<^verbatim>\<open>window.location.href\<close> and the
  requests issued so far.
\<close>

record 'a state =
  localStorage :: "'a storage"
  sessionStorage :: "'a storage"
  location :: string
  requests :: "url list"

text \<open>
  What the program does not control: the clock (\<^verbatim>\<open>Date.now()\<close>, fixed during
  one operation), the browser's decision whether a store holding \<open>st\<close> admits
  writing \<open>v\<close> under \<open>k\<close> (otherwise \<^verbatim>\<open>setItem\<close> throws
  QuotaExceededError), the remote API, typed by what its endpoints answer, and
  the order in which the responses to requests that are in flight together
  arrive: \<open>arrival\<close> is given the requests in flight and answers the position
  of the one whose response is handled next (taken modulo their number).
\<close>

record 'a world =
  now :: int
  quota :: "'a storage \<Rightarrow> string \<Rightarrow> 'a sval \<Rightarrow> bool"
  repos_net :: "url \<Rightarrow> apirepo list response"
  orgs_net :: "url \<Rightarrow> apiorg list response"
  arrival :: "url list \<Rightarrow> nat"

section \<open>The store adapter (scripts/storage.js)\<close>

definition PAT :: string where "PAT = ''github_pat''"
definition USER_INFO :: string where "USER_INFO = ''user_info''"
definition ORGANIZATIONS :: string where "ORGANIZATIONS = ''organizations''"
definition ORGANIZATIONS_TIMESTAMP :: string where
  "ORGANIZATIONS_TIMESTAMP = ''organizations_timestamp''"
definition TRACKED_REPOS :: string where "TRACKED_REPOS = ''tracked_repos''"
definition CACHE :: string where "CACHE = ''api_cache''"

text \<open>JavaScript truthiness of what \<^verbatim>\<open>getItem\<close> answers: \<^verbatim>\<open>null\<close> and the
  empty string are falsy.\<close>

fun truthy :: "'a sval option \<Rightarrow> bool" where
  "truthy None = False"
| "truthy (Some (Text t)) = (t \<noteq> [])"
| "truthy (Some _) = True"

definition setItem :: "'a world \<Rightarrow> 'a storage \<Rightarrow> string \<Rightarrow> 'a sval \<Rightarrow> error + 'a storage" where
  "setItem w st k v = (if quota w st k v then Inr (st(k \<mapsto> v)) else Inl QuotaExceededError)"

definition removeItem :: "'a storage \<Rightarrow> string \<Rightarrow> 'a storage" where
  "removeItem st k = st(k := None)"

datatype which = Local | Session

definition store :: "which \<Rightarrow> 'a state \<Rightarrow> 'a storage" where
  "store x s = (case x of Local \<Rightarrow> localStorage s | Session \<Rightarrow> sessionStorage s)"

definition put_store :: "which \<Rightarrow> 'a storage \<Rightarrow> 'a state \<Rightarrow> 'a state" where
  "put_store x st s =
     (case x of Local \<Rightarrow> s\<lparr>localStorage := st\<rparr> | Session \<Rightarrow> s\<lparr>sessionStorage := st\<rparr>)"

definition getActiveStorage :: "'a state \<Rightarrow> which" where
  "getActiveStorage s = (if truthy (localStorage s PAT) then Local else Session)"

definition getCache :: "'a state \<Rightarrow> (string \<rightharpoonup> 'a entry)" where
  "getCache s =
     (case store (getActiveStorage s) s CACHE of
        Some (CacheDoc c) \<Rightarrow> c
      | _ \<Rightarrow> Map.empty)"

text \<open>The object \<^verbatim>\<open>cleaned\<close> that \<^verbatim>\<open>clearStaleCache\<close> builds.\<close>

definition cleaned :: "int \<Rightarrow> (string \<rightharpoonup> 'a entry) \<Rightarrow> (string \<rightharpoonup> 'a entry)" where
  "cleaned t c =
     (\<lambda>k. case c k of
            None \<Rightarrow> None
          | Some e \<Rightarrow> if expires e = 0 \<or> expires e > t then Some e else None)"

text \<open>
  \<^verbatim>\<open>safeSetItem\<close> calls \<^verbatim>\<open>handleQuotaExceeded\<close>, which calls
  \<^verbatim>\<open>clearStaleCache\<close>, which calls \<^verbatim>\<open>setCache\<close>, which calls
  \<^verbatim>\<open>safeSetItem\<close> again. The recursive function is \<open>safeSetItem\<close>, with the
  bodies of the other three written out at the place of the call; they are
  defined on their own below, and \<open>safeSetItem_handler\<close> shows the equation
  in the source's shape. When the browser rejects the write of the cleaned
  cache as well, the recursion never ends: the model has \<open>None\<close> there (an
  engine with a bounded stack gives up with a RangeError instead).
\<close>

partial_function (option) safeSetItem ::
  "'a world \<Rightarrow> string \<Rightarrow> 'a sval \<Rightarrow> bool \<Rightarrow> 'a state \<Rightarrow> ((error + unit) \<times> 'a state) option"
where
  "safeSetItem w key val useSession s =
     (let storage = (if useSession then Session else getActiveStorage s) in
      case setItem w (store storage s) key val of
        Inr st' \<Rightarrow> Some (Inr (), put_store storage st' s)
      | Inl e \<Rightarrow>
          if e = QuotaExceededError then
            Option.bind
              (Option.bind
                 (safeSetItem w CACHE (CacheDoc (cleaned (now w) (getCache s))) False s)
                 (\<lambda>(r, s1). case r of
                     Inl e1 \<Rightarrow> Some (Inl e1, s1)
                   | Inr _ \<Rightarrow>
                       Some (Inl STORAGE_QUOTA_EXCEEDED,
                             put_store (getActiveStorage s1)
                               (removeItem (store (getActiveStorage s1) s1) CACHE) s1)))
              (\<lambda>(r :: error + unit, s2). case r of
                  Inl e2 \<Rightarrow> Some (Inl e2, s2)
                | Inr _ \<Rightarrow>
                    (case setItem w (store storage s2) key val of
                       Inr st' \<Rightarrow> Some (Inr (), put_store storage st' s2)
                     | Inl e3 \<Rightarrow> Some (Inl e3, s2)))
          else Some (Inl e, s))"

definition setCache ::
  "'a world \<Rightarrow> (string \<rightharpoonup> 'a entry) \<Rightarrow> 'a state \<Rightarrow> ((error + unit) \<times> 'a state) option" where
  "setCache w cache s = safeSetItem w CACHE (CacheDoc cache) False s"

definition clearStaleCache :: "'a world \<Rightarrow> 'a state \<Rightarrow> ((error + unit) \<times> 'a state) option" where
  "clearStaleCache w s = setCache w (cleaned (now w) (getCache s)) s"

definition handleQuotaExceeded :: "'a world \<Rightarrow> 'a state \<Rightarrow> ((error + unit) \<times> 'a state) option" where
  "handleQuotaExceeded w s =
     Option.bind (clearStaleCache w s)
       (\<lambda>(r, s1). case r of
           Inl e1 \<Rightarrow> Some (Inl e1, s1)
         | Inr _ \<Rightarrow>
             Some (Inl STORAGE_QUOTA_EXCEEDED,
                   put_store (getActiveStorage s1)
                     (removeItem (store (getActiveStorage s1) s1) CACHE) s1))"

text \<open>
  Sequencing and \<^verbatim>\<open>try/catch\<close> for computations that may throw, change the
  state, or never return.
\<close>

definition andThen ::
  "(('e + 'r) \<times> 's) option \<Rightarrow> ('r \<Rightarrow> 's \<Rightarrow> (('e + 'q) \<times> 's) option) \<Rightarrow> (('e + 'q) \<times> 's) option" where
  "andThen m f =
     (case m of
        None \<Rightarrow> None
      | Some (Inl e, s) \<Rightarrow> Some (Inl e, s)
      | Some (Inr x, s) \<Rightarrow> f x s)"

definition orCatch ::
  "(('e + 'r) \<times> 's) option \<Rightarrow> ('e \<Rightarrow> 's \<Rightarrow> (('e + 'r) \<times> 's) option) \<Rightarrow> (('e + 'r) \<times> 's) option" where
  "orCatch m h =
     (case m of
        None \<Rightarrow> None
      | Some (Inl e, s) \<Rightarrow> h e s
      | Some (Inr x, s) \<Rightarrow> Some (Inr x, s))"

subsection \<open>Dashboard settings\<close>




subsection \<open>Tracked repositories\<close>

definition getTrackedRepos :: "'a state \<Rightarrow> tracked list" where
  "getTrackedRepos s =
     (case store (getActiveStorage s) s TRACKED_REPOS of
        Some (TrackedDoc repos) \<Rightarrow> repos
      | _ \<Rightarrow> [])"

definition setTrackedRepos ::
  "'a world \<Rightarrow> tracked list \<Rightarrow> 'a state \<Rightarrow> ((error + unit) \<times> 'a state) option" where
  "setTrackedRepos w repos s = safeSetItem w TRACKED_REPOS (TrackedDoc repos) False s"

definition addTrackedRepo ::
  "'a world \<Rightarrow> repo \<Rightarrow> 'a state \<Rightarrow> ((error + bool) \<times> 'a state) option" where
  "addTrackedRepo w repo s =
     (let repos = getTrackedRepos s in
      if list_ex (\<lambda>r. tr_id r = repo_id repo) repos then Some (Inr False, s)
      else
        let newRepo = \<lparr>tr_id = repo_id repo, tr_full_name = repo_full_name repo,
                       tr_name = repo_name repo, tr_owner = repo_owner repo,
                       tr_owner_type = repo_owner_type repo,
                       tr_pinned = False, tr_notes = []\<rparr>
        in andThen (setTrackedRepos w (repos @ [newRepo]) s) (\<lambda>_ s1. Some (Inr True, s1)))"

definition removeTrackedRepo ::
  "'a world \<Rightarrow> int \<Rightarrow> 'a state \<Rightarrow> ((error + bool) \<times> 'a state) option" where
  "removeTrackedRepo w repoId s =
     (let repos = getTrackedRepos s;
          initialLength = length repos;
          filtered = filter (\<lambda>r. tr_id r \<noteq> repoId) repos
      in if length filtered = initialLength then Some (Inr False, s)
         else andThen (setTrackedRepos w filtered s) (\<lambda>_ s1. Some (Inr True, s1)))"

text \<open>\<^verbatim>\<open>findIndex\<close>: the first position that satisfies the test, \<open>None\<close> for -1.\<close>

fun findIndex :: "('x \<Rightarrow> bool) \<Rightarrow> 'x list \<Rightarrow> nat option" where
  "findIndex P [] = None"
| "findIndex P (x # xs) =
     (if P x then Some 0 else map_option Suc (findIndex P xs))"

text \<open>The spread \<^verbatim>\<open>{ ...repos[index], ...updates }\<close>.\<close>

definition spreadUpdates :: "tracked \<Rightarrow> updates \<Rightarrow> tracked" where
  "spreadUpdates r u =
     \<lparr>tr_id = (case up_id u of None \<Rightarrow> tr_id r | Some v \<Rightarrow> v),
      tr_full_name = (case up_full_name u of None \<Rightarrow> tr_full_name r | Some v \<Rightarrow> v),
      tr_name = (case up_name u of None \<Rightarrow> tr_name r | Some v \<Rightarrow> v),
      tr_owner = (case up_owner u of None \<Rightarrow> tr_owner r | Some v \<Rightarrow> v),
      tr_owner_type = (case up_owner_type u of None \<Rightarrow> tr_owner_type r | Some v \<Rightarrow> v),
      tr_pinned = (case up_pinned u of None \<Rightarrow> tr_pinned r | Some v \<Rightarrow> v),
      tr_notes = (case up_notes u of None \<Rightarrow> tr_notes r | Some v \<Rightarrow> v)\<rparr>"

definition updateTrackedRepo ::
  "'a world \<Rightarrow> int \<Rightarrow> updates \<Rightarrow> 'a state \<Rightarrow> ((error + bool) \<times> 'a state) option" where
  "updateTrackedRepo w repoId u s =
     (let repos = getTrackedRepos s in
      case findIndex (\<lambda>r. tr_id r = repoId) repos of
        None \<Rightarrow> Some (Inr False, s)
      | Some index \<Rightarrow>
          andThen (setTrackedRepos w (repos[index := spreadUpdates (repos ! index) u]) s)
            (\<lambda>_ s1. Some (Inr True, s1)))"

subsection \<open>The TTL cache\<close>

definition getCachedValue :: "'a world \<Rightarrow> string \<Rightarrow> 'a state \<Rightarrow> 'a option" where
  "getCachedValue w key s =
     (case getCache s key of
        None \<Rightarrow> None
      | Some e \<Rightarrow> if expires e \<noteq> 0 \<and> now w > expires e then None else data e)"

definition setCachedValue ::
  "'a world \<Rightarrow> string \<Rightarrow> 'a option \<Rightarrow> int \<Rightarrow> 'a state \<Rightarrow> ((error + unit) \<times> 'a state) option" where
  "setCachedValue w key d ttlMinutes s =
     (let cache = getCache s;
          expires = now w + ttlMinutes * 60 * 1000
      in setCache w (cache(key \<mapsto> \<lparr>data = d, expires = expires, timestamp = now w\<rparr>)) s)"

section \<open>The GitHub API utilities\<close>

definition GITHUB_API_BASE :: string where
  "GITHUB_API_BASE = ''https://api.github.com''"

text \<open>\<^verbatim>\<open>a || b\<close> on what two stores answer for the same key.\<close>

definition getEither :: "'a state \<Rightarrow> string \<Rightarrow> 'a sval option" where
  "getEither s k = (if truthy (localStorage s k) then localStorage s k else sessionStorage s k)"

definition getStoredPAT :: "'a state \<Rightarrow> 'a sval option" where
  "getStoredPAT s = getEither s PAT"

definition clearAuth :: "'a state \<Rightarrow> 'a state" where
  "clearAuth s =
     s\<lparr>localStorage :=
          removeItem (removeItem (removeItem (removeItem (localStorage s) PAT) USER_INFO)
            ORGANIZATIONS) ORGANIZATIONS_TIMESTAMP,
       sessionStorage :=
          removeItem (removeItem (removeItem (removeItem (sessionStorage s) PAT) USER_INFO)
            ORGANIZATIONS) ORGANIZATIONS_TIMESTAMP\<rparr>"

definition requireAuth :: "'a state \<Rightarrow> bool \<times> 'a state" where
  "requireAuth s =
     (if \<not> truthy (getStoredPAT s) then (False, s\<lparr>location := ''auth.html''\<rparr>)
      else (True, s))"

text \<open>
  \<^verbatim>\<open>githubAPI\<close>, for an endpoint whose answers have bodies of type \<open>'b\<close>.
  \<open>requestUrl\<close> is its constant \<^verbatim>\<open>url\<close>. The request is recorded when
  \<^verbatim>\<open>fetch\<close> is called.
\<close>

definition requestUrl :: "url \<Rightarrow> url" where
  "requestUrl endpoint =
     (if take 4 (path endpoint) = ''http'' then endpoint
      else endpoint\<lparr>path := GITHUB_API_BASE @ path endpoint\<rparr>)"

definition githubAPI ::
  "(url \<Rightarrow> 'b response) \<Rightarrow> url \<Rightarrow> 'a state \<Rightarrow> (error + 'b) \<times> 'a state" where
  "githubAPI net endpoint s =
     (if \<not> truthy (getStoredPAT s) then (Inl NO_TOKEN, s)
      else
        let u = requestUrl endpoint;
            s1 = s\<lparr>requests := requests s @ [u]\<rparr>
        in case net u of
             NetworkFailure \<Rightarrow> (Inl NetworkError, s1)
           | Http st remaining b \<Rightarrow>
               if st = 401 then (Inl INVALID_TOKEN, (clearAuth s1)\<lparr>location := ''auth.html''\<rparr>)
               else if st = 403 then
                 (if remaining = Some ''0'' then (Inl RATE_LIMIT_EXCEEDED, s1)
                  else (Inl FORBIDDEN, s1))
               else if \<not> (200 \<le> st \<and> st \<le> 299) then (Inl (API_ERROR st), s1)
               else (Inr b, s1))"

text \<open>
  The two halves of \<^verbatim>\<open>githubAPI\<close> around its \<^verbatim>\<open>await fetch\<close>: what runs when
  it is called, up to the request being sent, and what runs when the response
  has arrived. Other code can run in between.
\<close>

definition githubAPI_send :: "url \<Rightarrow> 'a state \<Rightarrow> (error + url) \<times> 'a state" where
  "githubAPI_send endpoint s =
     (if \<not> truthy (getStoredPAT s) then (Inl NO_TOKEN, s)
      else
        let u = requestUrl endpoint
        in (Inr u, s\<lparr>requests := requests s @ [u]\<rparr>))"

definition githubAPI_receive :: "'b response \<Rightarrow> 'a state \<Rightarrow> (error + 'b) \<times> 'a state" where
  "githubAPI_receive r s1 =
     (case r of
        NetworkFailure \<Rightarrow> (Inl NetworkError, s1)
      | Http st remaining b \<Rightarrow>
          if st = 401 then (Inl INVALID_TOKEN, (clearAuth s1)\<lparr>location := ''auth.html''\<rparr>)
          else if st = 403 then
            (if remaining = Some ''0'' then (Inl RATE_LIMIT_EXCEEDED, s1)
             else (Inl FORBIDDEN, s1))
          else if \<not> (200 \<le> st \<and> st \<le> 299) then (Inl (API_ERROR st), s1)
          else (Inr b, s1))"

subsection \<open>Organizations\<close>

definition getStoredOrganizations :: "'a state \<Rightarrow> error + org list option" where
  "getStoredOrganizations s =
     (let orgsStr = getEither s ORGANIZATIONS in
      if truthy orgsStr then
        (case orgsStr of Some (OrgsDoc orgs) \<Rightarrow> Inr (Some orgs) | _ \<Rightarrow> Inl SyntaxError)
      else Inr None)"

definition storeOrganizations ::
  "'a world \<Rightarrow> org list \<Rightarrow> 'a state \<Rightarrow> (error + unit) \<times> 'a state" where
  "storeOrganizations w organizations s =
     (let storage = getActiveStorage s in
      case setItem w (store storage s) ORGANIZATIONS (OrgsDoc organizations) of
        Inl e \<Rightarrow> (Inl e, s)
      | Inr st1 \<Rightarrow>
          (case setItem w st1 ORGANIZATIONS_TIMESTAMP (Num (now w)) of
             Inl e \<Rightarrow> (Inl e, put_store storage st1 s)
           | Inr st2 \<Rightarrow> (Inr (), put_store storage st2 s)))"

text \<open>\<^verbatim>\<open>parseInt\<close> of a stored text: \<open>None\<close> is NaN.\<close>

fun parseInt :: "'a sval option \<Rightarrow> int option" where
  "parseInt (Some (Num n)) = Some n"
| "parseInt _ = None"

definition isOrganizationsCacheValid :: "'a world \<Rightarrow> 'a state \<Rightarrow> bool" where
  "isOrganizationsCacheValid w s =
     (let timestamp = store (getActiveStorage s) s ORGANIZATIONS_TIMESTAMP in
      if \<not> truthy timestamp then False
      else (case parseInt timestamp of
              None \<Rightarrow> False
            | Some t \<Rightarrow> now w - t < 30 * 60 * 1000))"

definition fetchOrganizations :: "'a world \<Rightarrow> 'a state \<Rightarrow> (error + org list) \<times> 'a state" where
  "fetchOrganizations w s =
     (case githubAPI (orgs_net w) \<lparr>path = ''/user/orgs'', query = []\<rparr> s of
        (Inl e, s1) \<Rightarrow> (Inl e, s1)
      | (Inr orgs, s1) \<Rightarrow>
          (Inr (map (\<lambda>org. \<lparr>org_id = apiorg_id org, org_login = apiorg_login org,
                             org_avatar_url = apiorg_avatar_url org,
                             org_description =
                               (case apiorg_description org of
                                  None \<Rightarrow> [] | Some d \<Rightarrow> d),
                             org_url = apiorg_url org\<rparr>) orgs), s1))"

definition initOrganizations ::
  "'a world \<Rightarrow> bool \<Rightarrow> 'a state \<Rightarrow> (error + org list) \<times> 'a state" where
  "initOrganizations w forceRefresh s =
     (case requireAuth s of
        (False, s0) \<Rightarrow> (Inr [], s0)
      | (True, s0) \<Rightarrow>
          (case (if \<not> forceRefresh \<and> isOrganizationsCacheValid w s0
                 then getStoredOrganizations s0 else Inr None) of
             Inl e \<Rightarrow> (Inl e, s0)
           | Inr (Some storedOrgs) \<Rightarrow> (Inr storedOrgs, s0)
           | Inr None \<Rightarrow>
               (case (case fetchOrganizations w s0 of
                        (Inl e, s1) \<Rightarrow> (Inl e, s1)
                      | (Inr organizations, s1) \<Rightarrow>
                          (case storeOrganizations w organizations s1 of
                             (Inl e, s2) \<Rightarrow> (Inl e, s2)
                           | (Inr _, s2) \<Rightarrow> (Inr organizations, s2))) of
                  (Inr organizations, s3) \<Rightarrow> (Inr organizations, s3)
                | (Inl error, s3) \<Rightarrow>
                    (case getStoredOrganizations s3 of
                       Inl e \<Rightarrow> (Inl e, s3)
                     | Inr (Some storedOrgs) \<Rightarrow> (Inr storedOrgs, s3)
                     | Inr None \<Rightarrow> (Inl error, s3)))))"

subsection \<open>Repositories\<close>

definition perPage :: nat where "perPage = 100"

text \<open>
  The query \<^verbatim>\<open>new URLSearchParams({ ...params, page, per_page })\<close>: a key of
  \<^verbatim>\<open>params\<close> keeps its place, a new key goes to the end.
\<close>

definition queryParams :: "(string \<times> qval) list \<Rightarrow> nat \<Rightarrow> (string \<times> qval) list" where
  "queryParams params page =
     AList.update ''per_page'' (QN perPage) (AList.update ''page'' (QN page) params)"

text \<open>
  The \<^verbatim>\<open>while (true)\<close> loop of \<^verbatim>\<open>fetchAllRepositories\<close>, with the loop
  variables \<^verbatim>\<open>page\<close> and \<^verbatim>\<open>repos\<close> as arguments.
\<close>

partial_function (option) fetchAllRepositories_while ::
  "'a world \<Rightarrow> string \<Rightarrow> (string \<times> qval) list \<Rightarrow> nat \<Rightarrow> apirepo list \<Rightarrow> 'a state
     \<Rightarrow> ((error + apirepo list) \<times> 'a state) option"
where
  "fetchAllRepositories_while w endpoint params page repos s =
     (case githubAPI (repos_net w) \<lparr>path = endpoint, query = queryParams params page\<rparr> s of
        (Inl e, s1) \<Rightarrow> Some (Inl e, s1)
      | (Inr pageRepos, s1) \<Rightarrow>
          if length pageRepos = 0 then Some (Inr repos, s1)
          else if length pageRepos < perPage then Some (Inr (repos @ pageRepos), s1)
          else fetchAllRepositories_while w endpoint params (page + 1) (repos @ pageRepos) s1)"

definition fetchAllRepositories ::
  "'a world \<Rightarrow> string \<Rightarrow> (string \<times> qval) list \<Rightarrow> 'a state
     \<Rightarrow> ((error + apirepo list) \<times> 'a state) option" where
  "fetchAllRepositories w endpoint params s = fetchAllRepositories_while w endpoint params 1 [] s"

text \<open>The object both repository fetchers build from an API repository.\<close>

definition toRepo :: "apirepo \<Rightarrow> repo" where
  "toRepo r =
     \<lparr>repo_id = api_id r, repo_full_name = api_full_name r, repo_name = api_name r,
      repo_owner = \<lparr>owner_login = owner_login (api_owner r),
                     owner_avatar_url = owner_avatar_url (api_owner r),
                     owner_kind = owner_kind (api_owner r)\<rparr>,
      repo_owner_type = owner_kind (api_owner r),
      repo_description = (case api_description r of None \<Rightarrow> [] | Some d \<Rightarrow> d),
      repo_private = api_private r, repo_html_url = api_html_url r,
      repo_stargazers_count = api_stargazers_count r,
      repo_watchers_count = api_watchers_count r,
      repo_forks_count = api_forks_count r,
      repo_open_issues_count = api_open_issues_count r,
      repo_language = api_language r, repo_updated_at = api_updated_at r,
      repo_created_at = api_created_at r, repo_archived = api_archived r\<rparr>"

definition fetchUserRepositories ::
  "'a world \<Rightarrow> 'a state \<Rightarrow> ((error + repo list) \<times> 'a state) option" where
  "fetchUserRepositories w s =
     (let params = [(''type'', QS ''all''), (''sort'', QS ''updated''),
                    (''affiliation'', QS ''owner,collaborator,organization_member'')]
      in andThen (fetchAllRepositories w ''/user/repos'' params s)
           (\<lambda>repos s1. Some (Inr (map toRepo repos), s1)))"

text \<open>
  \<^verbatim>\<open>fetchOrganizationRepositories\<close> awaited on its own, with nothing else running
  between its requests. \<^verbatim>\<open>fetchAllUserRepositories\<close> runs these calls together;
  that is modelled further down.
\<close>

definition fetchOrganizationRepositories ::
  "'a world \<Rightarrow> string \<Rightarrow> 'a state \<Rightarrow> ((error + repo list) \<times> 'a state) option" where
  "fetchOrganizationRepositories w orgLogin s =
     (let params = [(''type'', QS ''all''), (''sort'', QS ''updated'')]
      in andThen (fetchAllRepositories w (''/orgs/'' @ orgLogin @ ''/repos'') params s)
           (\<lambda>repos s1. Some (Inr (map toRepo repos), s1)))"

definition cacheKey :: string where "cacheKey = ''repositories_all''"

definition isRepositoriesCacheValid :: "repo list world \<Rightarrow> repo list state \<Rightarrow> bool" where
  "isRepositoriesCacheValid w s = (getCachedValue w cacheKey s \<noteq> None)"

definition getStoredRepositories :: "repo list world \<Rightarrow> repo list state \<Rightarrow> repo list option" where
  "getStoredRepositories w s = getCachedValue w cacheKey s"

definition storeRepositories ::
  "repo list world \<Rightarrow> repo list \<Rightarrow> repo list state
     \<Rightarrow> ((error + unit) \<times> repo list state) option" where
  "storeRepositories w repositories s = setCachedValue w cacheKey (Some repositories) 5 s"

text \<open>
  \<^verbatim>\<open>new Map(pairs)\<close> inserts the pairs in order: a key seen before keeps its
  place and takes the new value, a new key goes to the end; \<^verbatim>\<open>.values()\<close>
  lists the values in that order.
\<close>

definition newMap :: "('k \<times> 'v) list \<Rightarrow> ('k \<times> 'v) list" where
  "newMap pairs = foldl (\<lambda>m (k, v). AList.update k v m) [] pairs"

definition uniqueRepos :: "repo list \<Rightarrow> repo list" where
  "uniqueRepos allRepos = map snd (newMap (map (\<lambda>repo. (repo_id repo, repo)) allRepos))"

text \<open>
  The organization fetches run together. \<^verbatim>\<open>organizations.map\<close> calls
  \<^verbatim>\<open>fetchOrganizationRepositories\<close> for every organization in turn, and each
  call runs until its first \<^verbatim>\<open>await fetch\<close>: the token is read and the request
  for page 1 is sent before any response is handled. From then on a call goes on
  only when the response it waits for arrives, and the world decides whose
  response that is.

  A promise is such a call: \<open>Pending\<close> with the loop variables of
  \<^verbatim>\<open>fetchAllRepositories\<close> (\<^verbatim>\<open>endpoint\<close>, \<^verbatim>\<open>params\<close>, \<^verbatim>\<open>page\<close>,
  \<^verbatim>\<open>repos\<close>) while the request for that page is in flight, \<open>Fulfilled\<close> with
  the repositories it returned, or \<open>Rejected\<close> with the error it threw.
\<close>

datatype promise =
    Pending string "(string \<times> qval) list" nat "apirepo list"
  | Fulfilled "repo list"
  | Rejected error

fun isPending :: "promise \<Rightarrow> bool" where
  "isPending (Pending endpoint params page repos) = True"
| "isPending _ = False"

text \<open>The request a pending promise waits for.\<close>

fun requestOf :: "promise \<Rightarrow> url" where
  "requestOf (Pending endpoint params page repos) =
     requestUrl \<lparr>path = endpoint, query = queryParams params page\<rparr>"
| "requestOf _ = \<lparr>path = [], query = []\<rparr>"

text \<open>
  Calling \<^verbatim>\<open>fetchOrganizationRepositories(orgLogin)\<close>: the part that runs at
  once, down to the first \<^verbatim>\<open>await fetch\<close> inside \<^verbatim>\<open>githubAPI\<close>.
\<close>

definition fetchOrganizationRepositories_call :: "string \<Rightarrow> 'a state \<Rightarrow> promise \<times> 'a state" where
  "fetchOrganizationRepositories_call orgLogin s =
     (let params = [(''type'', QS ''all''), (''sort'', QS ''updated'')];
          endpoint = ''/orgs/'' @ orgLogin @ ''/repos''
      in case githubAPI_send \<lparr>path = endpoint, query = queryParams params 1\<rparr> s of
           (Inl e, s0) \<Rightarrow> (Rejected e, s0)
         | (Inr u, s1) \<Rightarrow> (Pending endpoint params 1 [], s1))"

text \<open>
  A pending call goes on when its response has arrived: the rest of
  \<^verbatim>\<open>githubAPI\<close>, then the body of the loop, and, when the page was full, the
  next call of \<^verbatim>\<open>githubAPI\<close> down to its \<^verbatim>\<open>await fetch\<close>.
\<close>

fun resume :: "'a world \<Rightarrow> promise \<Rightarrow> 'a state \<Rightarrow> promise \<times> 'a state" where
  "resume w (Pending endpoint params page repos) s =
     (case githubAPI_receive
             (repos_net w (requestUrl \<lparr>path = endpoint, query = queryParams params page\<rparr>)) s of
        (Inl e, s1) \<Rightarrow> (Rejected e, s1)
      | (Inr pageRepos, s1) \<Rightarrow>
          if length pageRepos = 0 then (Fulfilled (map toRepo repos), s1)
          else if length pageRepos < perPage
          then (Fulfilled (map toRepo (repos @ pageRepos)), s1)
          else
            (case githubAPI_send
                    \<lparr>path = endpoint, query = queryParams params (page + 1)\<rparr> s1 of
               (Inl e, s2) \<Rightarrow> (Rejected e, s2)
             | (Inr u, s2) \<Rightarrow> (Pending endpoint params (page + 1) (repos @ pageRepos), s2)))"
| "resume w p s = (p, s)"

text \<open>The promises \<^verbatim>\<open>organizations.map(org => fetchOrganizationRepositories(org.login))\<close>.\<close>

fun orgReposPromises :: "org list \<Rightarrow> 'a state \<Rightarrow> promise list \<times> 'a state" where
  "orgReposPromises [] s = ([], s)"
| "orgReposPromises (org # organizations) s =
     (case fetchOrganizationRepositories_call (org_login org) s of
        (p, s1) \<Rightarrow>
          (case orgReposPromises organizations s1 of
             (ps, s2) \<Rightarrow> (p # ps, s2)))"

definition pendingIndices :: "promise list \<Rightarrow> nat list" where
  "pendingIndices ps = filter (\<lambda>i. isPending (ps ! i)) [0..<length ps]"

text \<open>
  \<^verbatim>\<open>await Promise.all(...)\<close>: as long as a promise is pending, the response that
  arrives next is handled and its call goes on; the others wait.
\<close>

partial_function (option) awaitAll ::
  "'a world \<Rightarrow> promise list \<Rightarrow> 'a state \<Rightarrow> (promise list \<times> 'a state) option"
where
  "awaitAll w ps s =
     (let pending = pendingIndices ps in
      if pending = [] then Some (ps, s)
      else
        let i = pending ! (arrival w (map (\<lambda>j. requestOf (ps ! j)) pending) mod length pending)
        in case resume w (ps ! i) s of
             (p, s1) \<Rightarrow> awaitAll w (ps[i := p]) s1)"

text \<open>The \<^verbatim>\<open>.catch(error => [])\<close> on every promise.\<close>

fun caught :: "promise \<Rightarrow> repo list" where
  "caught (Fulfilled repos) = repos"
| "caught _ = []"

definition fetchAllUserRepositories ::
  "'a world \<Rightarrow> 'a state \<Rightarrow> ((error + repo list) \<times> 'a state) option" where
  "fetchAllUserRepositories w s =
     andThen (fetchUserRepositories w s)
       (\<lambda>userRepos s1.
          andThen (Some (initOrganizations w False s1))
            (\<lambda>organizations s2.
               case orgReposPromises organizations s2 of
                 (promises, s3) \<Rightarrow>
                   Option.bind (awaitAll w promises s3)
                     (\<lambda>(settled, s4).
                        let orgReposArrays = map caught settled;
                            orgRepos = concat orgReposArrays;
                            allRepos = userRepos @ orgRepos
                        in Some (Inr (uniqueRepos allRepos), s4))))"

definition initRepositories ::
  "repo list world \<Rightarrow> bool \<Rightarrow> repo list state
     \<Rightarrow> ((error + repo list) \<times> repo list state) option" where
  "initRepositories w forceRefresh s =
     (case requireAuth s of
        (False, s0) \<Rightarrow> Some (Inr [], s0)
      | (True, s0) \<Rightarrow>
          (case (if \<not> forceRefresh \<and> isRepositoriesCacheValid w s0
                 then getStoredRepositories w s0 else None) of
             Some storedRepos \<Rightarrow> Some (Inr storedRepos, s0)
           | None \<Rightarrow>
               orCatch
                 (andThen (fetchAllUserRepositories w s0)
                    (\<lambda>repositories s1.
                       andThen (storeRepositories w repositories s1)
                         (\<lambda>_ s2. Some (Inr repositories, s2))))
                 (\<lambda>error s3.
                    case getStoredRepositories w s3 of
                      Some storedRepos \<Rightarrow> Some (Inr storedRepos, s3)
                    | None \<Rightarrow> Some (Inl error, s3))))"

section \<open>Sample data\<close>

text \<open>Concrete repositories, a world and states on which the functions are run.\<close>

definition exOwner :: owner where
  "exOwner = \<lparr>owner_login = ''octocat'', owner_avatar_url = ''https://a.example/octocat'',
              owner_kind = ''User''\<rparr>"

definition exApiRepo :: "int \<Rightarrow> string \<Rightarrow> apirepo" where
  "exApiRepo i n =
     \<lparr>api_id = i, api_full_name = ''octocat/'' @ n, api_name = n, api_owner = exOwner,
      api_description = None, api_private = False,
      api_html_url = ''https://github.com/octocat/'' @ n,
      api_stargazers_count = 0, api_watchers_count = 0, api_forks_count = 0,
      api_open_issues_count = 0, api_language = None,
      api_updated_at = ''2024-01-01T00:00:00Z'', api_created_at = ''2023-01-01T00:00:00Z'',
      api_archived = False\<rparr>"

definition exRepo :: "int \<Rightarrow> string \<Rightarrow> repo" where
  "exRepo i n = toRepo (exApiRepo i n)"

definition exTracked :: "int \<Rightarrow> string \<Rightarrow> tracked" where
  "exTracked i n =
     \<lparr>tr_id = i, tr_full_name = ''octocat/'' @ n, tr_name = n, tr_owner = exOwner,
      tr_owner_type = ''User'', tr_pinned = False, tr_notes = []\<rparr>"

definition noUpdates :: updates where
  "noUpdates = \<lparr>up_id = None, up_full_name = None, up_name = None, up_owner = None,
                up_owner_type = None, up_pinned = None, up_notes = None\<rparr>"

text \<open>
  A world at time 2000000 whose stores admit every write and whose network is
  down; of the responses in flight, that of the first promise arrives first.
\<close>

definition exWorld :: "repo list world" where
  "exWorld = \<lparr>now = 2000000, quota = (\<lambda>st k v. True),
              repos_net = (\<lambda>u. NetworkFailure), orgs_net = (\<lambda>u. NetworkFailure),
              arrival = (\<lambda>us. 0)\<rparr>"

text \<open>A signed-in session: the token is in \<^verbatim>\<open>localStorage\<close>, nothing else is stored.\<close>

definition exState :: "repo list state" where
  "exState = \<lparr>localStorage = [PAT \<mapsto> Text ''ghp_example''], sessionStorage = Map.empty,
              location = ''dashboard.html'', requests = []\<rparr>"

definition withLocal :: "string \<Rightarrow> repo list sval \<Rightarrow> repo list state \<Rightarrow> repo list state" where
  "withLocal k v s = s\<lparr>localStorage := (localStorage s)(k \<mapsto> v)\<rparr>"

definition trackedState :: "repo list state" where
  "trackedState = withLocal TRACKED_REPOS (TrackedDoc [exTracked 1 ''a'', exTracked 2 ''b'']) exState"

text \<open>A cache with an entry whose \<^verbatim>\<open>expires\<close> is 0.\<close>

definition zeroState :: "repo list state" where
  "zeroState = withLocal CACHE
     (CacheDoc [''k'' \<mapsto> \<lparr>data = Some [exRepo 1 ''a''], expires = 0, timestamp = 0\<rparr>]) exState"

text \<open>A signed-in session that also holds the profile and the organizations.\<close>

definition profileState :: "repo list state" where
  "profileState =
     withLocal USER_INFO (UserDoc \<lparr>user_login = ''octocat'', user_name = ''Octo'', user_id = 1\<rparr>)
       (withLocal ORGANIZATIONS (OrgsDoc [])
          (withLocal ORGANIZATIONS_TIMESTAMP (Num 1990000) exState))"

text \<open>A session without a token.\<close>

definition signedOutState :: "repo list state" where
  "signedOutState = \<lparr>localStorage = Map.empty, sessionStorage = Map.empty,
                     location = ''dashboard.html'', requests = []\<rparr>"

text \<open>
  The request for page \<open>i\<close> of an endpoint, and what it means that a response
  is a success carrying the body \<open>b\<close>.
\<close>

definition pageRequest :: "string \<Rightarrow> (string \<times> qval) list \<Rightarrow> nat \<Rightarrow> url" where
  "pageRequest endpoint params i = requestUrl \<lparr>path = endpoint, query = queryParams params i\<rparr>"

definition answers :: "'b response \<Rightarrow> 'b \<Rightarrow> bool" where
  "answers r b =
     (case r of NetworkFailure \<Rightarrow> False | Http st remaining b' \<Rightarrow> 200 \<le> st \<and> st \<le> 299 \<and> b' = b)"

text \<open>Three pages of 100, 100 and 37 repositories, and a world that serves them.\<close>

definition threePages :: "nat \<Rightarrow> apirepo list" where
  "threePages i = (if i \<le> 2 then replicate 100 (exApiRepo 7 ''r'') else replicate 37 (exApiRepo 7 ''r''))"

definition pagedWorld :: "repo list world" where
  "pagedWorld = exWorld\<lparr>repos_net :=
     (\<lambda>u. case map_of (query u) ''page'' of
             Some (QN i) \<Rightarrow> Http 200 None (threePages i)
           | _ \<Rightarrow> NetworkFailure)\<rparr>"

text \<open>A repository cache that expired at 1000000, one second before the time of \<open>exWorld\<close>.\<close>

definition staleState :: "repo list state" where
  "staleState = withLocal CACHE
     (CacheDoc [cacheKey \<mapsto> \<lparr>data = Some [exRepo 1 ''a''], expires = 1000000,
                               timestamp = 700000\<rparr>]) exState"

text \<open>
  A browser whose store is full as long as the cache holds the entry \<^verbatim>\<open>old\<close>:
  it admits rewriting the cache itself and, once that entry is gone, every write.
\<close>

definition fullWorld :: "repo list world" where
  "fullWorld = exWorld\<lparr>quota :=
     (\<lambda>st k v. k = CACHE \<or> (case st CACHE of Some (CacheDoc c) \<Rightarrow> c ''old'' = None | _ \<Rightarrow> True))\<rparr>"

definition fullState :: "repo list state" where
  "fullState = withLocal CACHE
     (CacheDoc [''old'' \<mapsto> \<lparr>data = Some [exRepo 1 ''a''], expires = 1000000,
                               timestamp = 700000\<rparr>]) exState"

text \<open>
  Two organizations: the request for the repositories of \<^verbatim>\<open>org-x\<close> is answered
  with status 401, those of \<^verbatim>\<open>org-y\<close> and the user's own can be fetched. The
  responses arrive in the order of the promises.
\<close>

definition exOrg :: "int \<Rightarrow> string \<Rightarrow> org" where
  "exOrg i n = \<lparr>org_id = i, org_login = n, org_avatar_url = ''https://a.example/'' @ n,
                org_description = [], org_url = ''https://api.github.com/orgs/'' @ n\<rparr>"

definition exApiOrg :: "int \<Rightarrow> string \<Rightarrow> apiorg" where
  "exApiOrg i n = \<lparr>apiorg_id = i, apiorg_login = n, apiorg_avatar_url = ''https://a.example/'' @ n,
                   apiorg_description = None, apiorg_url = ''https://api.github.com/orgs/'' @ n\<rparr>"


definition userParams :: "(string \<times> qval) list" where
  "userParams = [(''type'', QS ''all''), (''sort'', QS ''updated''),
                 (''affiliation'', QS ''owner,collaborator,organization_member'')]"

definition orgParams :: "(string \<times> qval) list" where
  "orgParams = [(''type'', QS ''all''), (''sort'', QS ''updated'')]"

text \<open>The states \<open>exState\<close> goes through when the repositories are fetched in \<open>orgWorld\<close>.\<close>

definition orgState1 :: "repo list state" where
  "orgState1 = exState\<lparr>requests := [pageRequest ''/user/repos'' userParams 1]\<rparr>"





text \<open>
  The user's list holds the repositories 1 and 2, the list of the one
  organization the repositories 2 and 3; the two copies of repository 2 differ
  in their names.
\<close>

definition mergeWorld :: "repo list world" where
  "mergeWorld = exWorld\<lparr>
     repos_net :=
       (\<lambda>u. if path u = GITHUB_API_BASE @ ''/user/repos''
             then Http 200 None [exApiRepo 1 ''a'', exApiRepo 2 ''b'']
             else Http 200 None [exApiRepo 2 ''b2'', exApiRepo 3 ''c'']),
     orgs_net := (\<lambda>u. Http 200 None [exApiOrg 11 ''org-y''])\<rparr>"

definition mergeState2 :: "repo list state" where
  "mergeState2 =
     (withLocal ORGANIZATIONS_TIMESTAMP (Num 2000000)
        (withLocal ORGANIZATIONS (OrgsDoc [exOrg 11 ''org-y'']) exState))
     \<lparr>requests := [pageRequest ''/user/repos'' userParams 1,
                   requestUrl \<lparr>path = ''/user/orgs'', query = []\<rparr>]\<rparr>"

definition mergeState3 :: "repo list state" where
  "mergeState3 =
     mergeState2\<lparr>requests := requests mergeState2 @
       [pageRequest ''/orgs/org-y/repos'' orgParams 1]\<rparr>"


section \<open>Notions used in the properties\<close>

text \<open>
  A call of \<^verbatim>\<open>fetchOrganizationRepositories\<close> that runs alone ends as the
  promise \<open>settle r\<close> when it returns or throws \<open>r\<close>.
\<close>

definition settle :: "error + repo list \<Rightarrow> promise" where
  "settle r = (case r of Inl e \<Rightarrow> Rejected e | Inr repos \<Rightarrow> Fulfilled repos)"

definition not401 :: "'b response \<Rightarrow> bool" where
  "not401 r = (case r of NetworkFailure \<Rightarrow> True | Http st remaining b \<Rightarrow> st \<noteq> 401)"

text \<open>Two states hold the same in both stores.\<close>

definition sameStores :: "'a state \<Rightarrow> 'a state \<Rightarrow> bool" where
  "sameStores s t = (localStorage s = localStorage t \<and> sessionStorage s = sessionStorage t)"

text \<open>
  Sending the request for a page of the loop: the promise is pending when the
  request is out and rejected when there is no token.
\<close>

definition requestPage ::
  "string \<Rightarrow> (string \<times> qval) list \<Rightarrow> nat \<Rightarrow> apirepo list \<Rightarrow> 'a state \<Rightarrow> promise \<times> 'a state" where
  "requestPage endpoint params page repos s =
     (case githubAPI_send \<lparr>path = endpoint, query = queryParams params page\<rparr> s of
        (Inl e, s0) \<Rightarrow> (Rejected e, s0)
      | (Inr u, s1) \<Rightarrow> (Pending endpoint params page repos, s1))"

text \<open>What a promise has become after at most \<open>n\<close> of its responses, with nothing else running.\<close>

fun runAlone :: "'a world \<Rightarrow> nat \<Rightarrow> promise \<Rightarrow> 'a state \<Rightarrow> promise option" where
  "runAlone w n (Fulfilled repos) s = Some (Fulfilled repos)"
| "runAlone w n (Rejected e) s = Some (Rejected e)"
| "runAlone w 0 (Pending endpoint params page repos) s = None"
| "runAlone w (Suc n) (Pending endpoint params page repos) s =
     (case resume w (Pending endpoint params page repos) s of
        (p, s1) \<Rightarrow> runAlone w n p s1)"


section \<open>Properties\<close>

subsection \<open>The quota handler\<close>

text \<open>The equation of \<open>safeSetItem\<close> in the shape of the source.\<close>

lemma safeSetItem_handler:
  "safeSetItem w key val useSession s =
     (let storage = (if useSession then Session else getActiveStorage s) in
      case setItem w (store storage s) key val of
        Inr st' \<Rightarrow> Some (Inr (), put_store storage st' s)
      | Inl e \<Rightarrow>
          if e = QuotaExceededError then
            Option.bind (handleQuotaExceeded w s)
              (\<lambda>(r, s2). case r of
                  Inl e2 \<Rightarrow> Some (Inl e2, s2)
                | Inr _ \<Rightarrow>
                    (case setItem w (store storage s2) key val of
                       Inr st' \<Rightarrow> Some (Inr (), put_store storage st' s2)
                     | Inl e3 \<Rightarrow> Some (Inl e3, s2)))
          else Some (Inl e, s))"
  unfolding handleQuotaExceeded_def clearStaleCache_def setCache_def
  by (rule safeSetItem.simps)

text \<open>
  A call of \<open>safeSetItem\<close> returns only if the browser admits the write itself
  or the write of the cleaned cache.
\<close>

lemma safeSetItem_returns:
  assumes "safeSetItem w key val useSession s = Some y"
  shows "quota w (store (if useSession then Session else getActiveStorage s) s) key val
         \<or> quota w (store (getActiveStorage s) s) CACHE (CacheDoc (cleaned (now w) (getCache s)))"
  using assms
proof (induction w key val useSession s y rule: safeSetItem.raw_induct[rotated, consumes 1])
  case (1 rec w key val useSession s y)
  show ?case
  proof (cases "quota w (store (if useSession then Session else getActiveStorage s) s) key val")
    case True
    then show ?thesis by simp
  next
    case False
    with 1(2) obtain y1 where
      "rec w CACHE (CacheDoc (cleaned (now w) (getCache s))) False s = Some y1"
      by (auto simp: setItem_def Let_def split: if_splits bind_splits)
    from 1(1)[OF this] show ?thesis by simp
  qed
qed

text \<open>What \<open>safeSetItem\<close> computes, without the recursion.\<close>

lemma safeSetItem_closed:
  "safeSetItem w key val useSession s =
     (let storage = (if useSession then Session else getActiveStorage s) in
      if quota w (store storage s) key val
      then Some (Inr (), put_store storage ((store storage s)(key \<mapsto> val)) s)
      else if quota w (store (getActiveStorage s) s) CACHE
                (CacheDoc (cleaned (now w) (getCache s)))
      then Some (Inl STORAGE_QUOTA_EXCEEDED,
                 put_store (getActiveStorage s) (removeItem (store (getActiveStorage s) s) CACHE) s)
      else None)"
proof -
  let ?storage = "if useSession then Session else getActiveStorage s"
  let ?cv = "CacheDoc (cleaned (now w) (getCache s))"
  show ?thesis
  proof (cases "quota w (store ?storage s) key val")
    case True
    then show ?thesis
      by (subst safeSetItem.simps) (simp add: setItem_def Let_def)
  next
    case False
    note first = this
    show ?thesis
    proof (cases "quota w (store (getActiveStorage s) s) CACHE ?cv")
      case True
      have inner: "safeSetItem w CACHE ?cv False s
                   = Some (Inr (), put_store (getActiveStorage s)
                                     ((store (getActiveStorage s) s)(CACHE \<mapsto> ?cv)) s)"
        using True by (subst safeSetItem.simps) (simp add: setItem_def Let_def)
      have act: "getActiveStorage (put_store (getActiveStorage s)
                    ((store (getActiveStorage s) s)(CACHE \<mapsto> ?cv)) s) = getActiveStorage s"
        by (simp add: getActiveStorage_def put_store_def store_def PAT_def CACHE_def)
      show ?thesis
        using first True
        apply (subst safeSetItem.simps)
        apply (simp add: setItem_def Let_def inner act)
        apply (simp add: put_store_def store_def removeItem_def split: which.splits)
        done
    next
      case False
      have "safeSetItem w CACHE ?cv False s = None"
      proof (rule ccontr)
        assume "safeSetItem w CACHE ?cv False s \<noteq> None"
        then obtain y where "safeSetItem w CACHE ?cv False s = Some y" by auto
        from safeSetItem_returns[OF this] False show False by simp
      qed
      then show ?thesis
        using first False
        by (subst safeSetItem.simps) (simp add: setItem_def Let_def)
    qed
  qed
qed

subsection \<open>Writing through the store adapter\<close>

lemma store_put_store: "store x (put_store x st s) = st"
  by (cases x) (simp_all add: store_def put_store_def)

lemma getActiveStorage_put_store:
  "st PAT = store x s PAT \<Longrightarrow> getActiveStorage (put_store x st s) = getActiveStorage s"
  by (cases x) (simp_all add: getActiveStorage_def put_store_def store_def)

lemma safeSetItem_cases:
  assumes "safeSetItem w key val False s = Some (r, s')"
  shows "(r = Inr () \<and> quota w (store (getActiveStorage s) s) key val
            \<and> s' = put_store (getActiveStorage s) ((store (getActiveStorage s) s)(key \<mapsto> val)) s)
       \<or> (r = Inl STORAGE_QUOTA_EXCEEDED \<and> \<not> quota w (store (getActiveStorage s) s) key val
            \<and> s' = put_store (getActiveStorage s) (removeItem (store (getActiveStorage s) s) CACHE) s)"
  using assms by (auto simp: safeSetItem_closed Let_def split: if_splits)

lemma andThen_Some:
  "andThen m f = Some y \<longleftrightarrow>
     (\<exists>e s. m = Some (Inl e, s) \<and> y = (Inl e, s)) \<or> (\<exists>x s. m = Some (Inr x, s) \<and> f x s = Some y)"
  by (auto simp: andThen_def split: option.splits sum.splits prod.splits)

lemma orCatch_Some:
  "orCatch m h = Some y \<longleftrightarrow>
     (\<exists>e s. m = Some (Inl e, s) \<and> h e s = Some y) \<or> (\<exists>x s. m = Some (Inr x, s) \<and> y = (Inr x, s))"
  by (auto simp: orCatch_def split: option.splits sum.splits prod.splits)

lemma exState_active: "getActiveStorage exState = Local"
  by (simp add: getActiveStorage_def exState_def)

subsection \<open>Dashboard settings\<close>









subsection \<open>Tracked repositories\<close>

lemma getTrackedRepos_written:
  "getTrackedRepos (put_store (getActiveStorage s)
      ((store (getActiveStorage s) s)(TRACKED_REPOS \<mapsto> TrackedDoc rs)) s) = rs"
  by (simp add: getTrackedRepos_def store_put_store getActiveStorage_put_store
        TRACKED_REPOS_def PAT_def)

lemma getTrackedRepos_cache_removed:
  "getTrackedRepos (put_store (getActiveStorage s)
      (removeItem (store (getActiveStorage s) s) CACHE) s) = getTrackedRepos s"
  by (simp add: getTrackedRepos_def store_put_store getActiveStorage_put_store removeItem_def
        TRACKED_REPOS_def PAT_def CACHE_def)

lemma setTrackedRepos_cases:
  assumes "setTrackedRepos w rs s = Some (r, s')"
  shows "(r = Inr () \<and> getTrackedRepos s' = rs)
       \<or> (r = Inl STORAGE_QUOTA_EXCEEDED \<and> getTrackedRepos s' = getTrackedRepos s)"
  using safeSetItem_cases[OF assms[unfolded setTrackedRepos_def]]
  by (auto simp: getTrackedRepos_written getTrackedRepos_cache_removed)

lemma addTrackedRepo_existing:
  "list_ex (\<lambda>r. tr_id r = repo_id repo) (getTrackedRepos s) \<Longrightarrow>
   addTrackedRepo w repo s = Some (Inr False, s)"
  by (simp add: addTrackedRepo_def Let_def)

lemma addTrackedRepo_distinct:
  assumes "distinct (map tr_id (getTrackedRepos s))" and "addTrackedRepo w repo s = Some (r, s')"
  shows "distinct (map tr_id (getTrackedRepos s'))"
proof (cases "list_ex (\<lambda>r. tr_id r = repo_id repo) (getTrackedRepos s)")
  case True
  with assms show ?thesis by (simp add: addTrackedRepo_existing)
next
  case False
  then have fresh: "repo_id repo \<notin> tr_id ` set (getTrackedRepos s)"
    by (auto simp: list_ex_iff)
  from assms(2) False obtain r0 where
    "setTrackedRepos w (getTrackedRepos s @
        [\<lparr>tr_id = repo_id repo, tr_full_name = repo_full_name repo, tr_name = repo_name repo,
          tr_owner = repo_owner repo, tr_owner_type = repo_owner_type repo,
          tr_pinned = False, tr_notes = []\<rparr>]) s = Some (r0, s')"
    by (auto simp: addTrackedRepo_def Let_def andThen_Some)
  from setTrackedRepos_cases[OF this] assms(1) fresh show ?thesis by auto
qed

lemma removeTrackedRepo_distinct:
  assumes "distinct (map tr_id (getTrackedRepos s))" and "removeTrackedRepo w repoId s = Some (r, s')"
  shows "distinct (map tr_id (getTrackedRepos s'))"
proof (cases "length (filter (\<lambda>r. tr_id r \<noteq> repoId) (getTrackedRepos s)) = length (getTrackedRepos s)")
  case True
  with assms show ?thesis by (simp add: removeTrackedRepo_def Let_def)
next
  case False
  with assms(2) obtain r0 where
    "setTrackedRepos w (filter (\<lambda>r. tr_id r \<noteq> repoId) (getTrackedRepos s)) s = Some (r0, s')"
    by (auto simp: removeTrackedRepo_def Let_def andThen_Some)
  from setTrackedRepos_cases[OF this] assms(1) show ?thesis
    by (auto simp: distinct_map_filter)
qed

lemma findIndex_Some:
  "findIndex P xs = Some i \<Longrightarrow> i < length xs \<and> P (xs ! i)"
  by (induction xs arbitrary: i) (auto split: if_splits)

lemma distinct_update_iff:
  assumes "distinct xs" and "i < length xs"
  shows "distinct (xs[i := v]) \<longleftrightarrow> (v = xs ! i \<or> v \<notin> set xs)"
proof
  assume d: "distinct (xs[i := v])"
  show "v = xs ! i \<or> v \<notin> set xs"
  proof (rule ccontr)
    assume "\<not> (v = xs ! i \<or> v \<notin> set xs)"
    then have ne: "v \<noteq> xs ! i" and "v \<in> set xs" by simp_all
    then obtain j where j: "j < length xs" "xs ! j = v" by (auto simp: in_set_conv_nth)
    with ne have ij: "i \<noteq> j" by auto
    from d[unfolded distinct_conv_nth, rule_format, of i j] assms(2) j ij
    show False by simp
  qed
next
  assume "v = xs ! i \<or> v \<notin> set xs"
  then have "v \<notin> set xs - {xs ! i}" by auto
  with assms(1) show "distinct (xs[i := v])" by (rule distinct_list_update)
qed

lemma updateTrackedRepo_stored:
  assumes "updateTrackedRepo w repoId u s = Some (Inr True, s')"
  shows "\<exists>index. index < length (getTrackedRepos s)
           \<and> tr_id (getTrackedRepos s ! index) = repoId
           \<and> map tr_id (getTrackedRepos s')
               = (map tr_id (getTrackedRepos s))
                   [index := (case up_id u of None \<Rightarrow> repoId | Some v \<Rightarrow> v)]"
proof (cases "findIndex (\<lambda>r. tr_id r = repoId) (getTrackedRepos s)")
  case None
  with assms show ?thesis by (simp add: updateTrackedRepo_def Let_def)
next
  case (Some index)
  let ?repos = "getTrackedRepos s"
  from findIndex_Some[OF Some] have idx: "index < length ?repos" "tr_id (?repos ! index) = repoId"
    by simp_all
  from assms Some have
    "setTrackedRepos w (?repos[index := spreadUpdates (?repos ! index) u]) s = Some (Inr (), s')"
    by (auto simp: updateTrackedRepo_def Let_def andThen_Some)
  from setTrackedRepos_cases[OF this]
  have "getTrackedRepos s' = ?repos[index := spreadUpdates (?repos ! index) u]" by simp
  with idx show ?thesis
    by (intro exI[of _ index]) (simp add: map_update spreadUpdates_def split: option.splits)
qed

lemma updateTrackedRepo_distinct:
  assumes "distinct (map tr_id (getTrackedRepos s))"
    and "case up_id u of None \<Rightarrow> True
         | Some v \<Rightarrow> v = repoId \<or> v \<notin> set (map tr_id (getTrackedRepos s))"
    and "updateTrackedRepo w repoId u s = Some (r, s')"
  shows "distinct (map tr_id (getTrackedRepos s'))"
proof (cases "findIndex (\<lambda>r. tr_id r = repoId) (getTrackedRepos s)")
  case None
  with assms show ?thesis by (simp add: updateTrackedRepo_def Let_def)
next
  case (Some index)
  let ?repos = "getTrackedRepos s"
  from findIndex_Some[OF Some] have idx: "index < length ?repos" "tr_id (?repos ! index) = repoId"
    by simp_all
  let ?v = "case up_id u of None \<Rightarrow> repoId | Some v \<Rightarrow> v"
  have ids: "map tr_id (?repos[index := spreadUpdates (?repos ! index) u])
             = (map tr_id ?repos)[index := ?v]"
    using idx by (simp add: map_update spreadUpdates_def split: option.splits)
  have "?v = map tr_id ?repos ! index \<or> ?v \<notin> set (map tr_id ?repos)"
    using assms(2) idx by (auto split: option.splits)
  with distinct_update_iff[OF assms(1), of index ?v] idx(1)
  have d: "distinct ((map tr_id ?repos)[index := ?v])" by simp
  from assms(3) Some obtain r0 where
    "setTrackedRepos w (?repos[index := spreadUpdates (?repos ! index) u]) s = Some (r0, s')"
    by (auto simp: updateTrackedRepo_def Let_def andThen_Some)
  from setTrackedRepos_cases[OF this] assms(1) d ids show ?thesis by auto
qed

lemma updateTrackedRepo_distinct_only:
  assumes "distinct (map tr_id (getTrackedRepos s))"
    and "updateTrackedRepo w repoId u s = Some (Inr True, s')"
    and "distinct (map tr_id (getTrackedRepos s'))"
  shows "case up_id u of None \<Rightarrow> True
         | Some v \<Rightarrow> v = repoId \<or> v \<notin> set (map tr_id (getTrackedRepos s))"
proof -
  from updateTrackedRepo_stored[OF assms(2)] obtain index where
    idx: "index < length (getTrackedRepos s)" "tr_id (getTrackedRepos s ! index) = repoId"
    and ids: "map tr_id (getTrackedRepos s')
               = (map tr_id (getTrackedRepos s))
                   [index := (case up_id u of None \<Rightarrow> repoId | Some v \<Rightarrow> v)]"
    by blast
  from assms(3) ids distinct_update_iff[OF assms(1), of index
         "case up_id u of None \<Rightarrow> repoId | Some v \<Rightarrow> v"] idx
  show ?thesis by (auto split: option.splits)
qed

lemma trackedState_active: "getActiveStorage trackedState = Local"
  by (simp add: getActiveStorage_def trackedState_def withLocal_def exState_def PAT_def TRACKED_REPOS_def)

lemma trackedState_repos: "getTrackedRepos trackedState = [exTracked 1 ''a'', exTracked 2 ''b'']"
  by (simp add: getTrackedRepos_def trackedState_active store_def)
     (simp add: trackedState_def withLocal_def)

lemma exWorld_quota: "quota exWorld st k v"
  by (simp add: exWorld_def)

lemma setTrackedRepos_trackedState:
  "setTrackedRepos exWorld rs trackedState = Some (Inr (), withLocal TRACKED_REPOS (TrackedDoc rs) trackedState)"
  by (simp add: setTrackedRepos_def safeSetItem_closed exWorld_quota trackedState_active
        store_def put_store_def withLocal_def)

lemma getTrackedRepos_withLocal:
  "getTrackedRepos (withLocal TRACKED_REPOS (TrackedDoc rs) trackedState) = rs"
  by (simp add: getTrackedRepos_def getActiveStorage_def store_def withLocal_def trackedState_def
        exState_def PAT_def TRACKED_REPOS_def)

text \<open>
  Claim C10, amended. \<^verbatim>\<open>addTrackedRepo\<close> answers false and leaves the state as
  it is when the id is already tracked. Tracked ids that are pairwise distinct
  stay so under \<^verbatim>\<open>addTrackedRepo\<close> and \<^verbatim>\<open>removeTrackedRepo\<close>, and under
  \<^verbatim>\<open>updateTrackedRepo\<close> when the update has no id, the id of the entry it
  updates, or an id that no entry of the list has; an update that is stored keeps
  them distinct in these cases only.
\<close>

theorem tracked_ids_distinct:
  "(list_ex (\<lambda>r. tr_id r = repo_id repo) (getTrackedRepos s) \<longrightarrow>
      addTrackedRepo w repo s = Some (Inr False, s))
   \<and> (distinct (map tr_id (getTrackedRepos s)) \<and> addTrackedRepo w repo2 s = Some (r1, s1) \<longrightarrow>
        distinct (map tr_id (getTrackedRepos s1)))
   \<and> (distinct (map tr_id (getTrackedRepos s)) \<and> removeTrackedRepo w repoId s = Some (r2, s2) \<longrightarrow>
        distinct (map tr_id (getTrackedRepos s2)))
   \<and> (distinct (map tr_id (getTrackedRepos s))
        \<and> (case up_id u of None \<Rightarrow> True
            | Some v \<Rightarrow> v = repoId3 \<or> v \<notin> set (map tr_id (getTrackedRepos s)))
        \<and> updateTrackedRepo w repoId3 u s = Some (r3, s3) \<longrightarrow>
        distinct (map tr_id (getTrackedRepos s3)))
   \<and> (distinct (map tr_id (getTrackedRepos s))
        \<and> updateTrackedRepo w repoId4 u4 s = Some (Inr True, s4)
        \<and> distinct (map tr_id (getTrackedRepos s4)) \<longrightarrow>
        (case up_id u4 of None \<Rightarrow> True
         | Some v \<Rightarrow> v = repoId4 \<or> v \<notin> set (map tr_id (getTrackedRepos s))))"
proof (intro conjI impI)
  show "addTrackedRepo w repo s = Some (Inr False, s)"
    if "list_ex (\<lambda>r. tr_id r = repo_id repo) (getTrackedRepos s)"
    using that by (rule addTrackedRepo_existing)
  show "distinct (map tr_id (getTrackedRepos s1))"
    if "distinct (map tr_id (getTrackedRepos s)) \<and> addTrackedRepo w repo2 s = Some (r1, s1)"
    using that addTrackedRepo_distinct by blast
  show "distinct (map tr_id (getTrackedRepos s2))"
    if "distinct (map tr_id (getTrackedRepos s)) \<and> removeTrackedRepo w repoId s = Some (r2, s2)"
    using that removeTrackedRepo_distinct by blast
  show "distinct (map tr_id (getTrackedRepos s3))"
    if "distinct (map tr_id (getTrackedRepos s))
        \<and> (case up_id u of None \<Rightarrow> True
            | Some v \<Rightarrow> v = repoId3 \<or> v \<notin> set (map tr_id (getTrackedRepos s)))
        \<and> updateTrackedRepo w repoId3 u s = Some (r3, s3)"
    using that updateTrackedRepo_distinct[where s = s and u = u and repoId = repoId3 and w = w and r = r3 and s' = s3] by blast
  show "case up_id u4 of None \<Rightarrow> True
         | Some v \<Rightarrow> v = repoId4 \<or> v \<notin> set (map tr_id (getTrackedRepos s))"
    if "distinct (map tr_id (getTrackedRepos s))
        \<and> updateTrackedRepo w repoId4 u4 s = Some (Inr True, s4)
        \<and> distinct (map tr_id (getTrackedRepos s4))"
    using that updateTrackedRepo_distinct_only[where s = s and u = u4 and repoId = repoId4 and w = w and s' = s4] by blast
qed

theorem tracked_ids_distinct_witness:
  "list_ex (\<lambda>r. tr_id r = repo_id (exRepo 2 ''b'')) (getTrackedRepos trackedState)
   \<and> addTrackedRepo exWorld (exRepo 2 ''b'') trackedState = Some (Inr False, trackedState)
   \<and> distinct (map tr_id (getTrackedRepos trackedState))
   \<and> addTrackedRepo exWorld (exRepo 3 ''c'') trackedState
       = Some (Inr True, withLocal TRACKED_REPOS
            (TrackedDoc [exTracked 1 ''a'', exTracked 2 ''b'', exTracked 3 ''c'']) trackedState)
   \<and> removeTrackedRepo exWorld 1 trackedState
       = Some (Inr True, withLocal TRACKED_REPOS (TrackedDoc [exTracked 2 ''b'']) trackedState)
   \<and> up_id (noUpdates\<lparr>up_pinned := Some True\<rparr>) = None
   \<and> updateTrackedRepo exWorld 2 (noUpdates\<lparr>up_pinned := Some True\<rparr>) trackedState
       = Some (Inr True, withLocal TRACKED_REPOS
            (TrackedDoc [exTracked 1 ''a'', (exTracked 2 ''b'')\<lparr>tr_pinned := True\<rparr>]) trackedState)
   \<and> distinct (map tr_id (getTrackedRepos (withLocal TRACKED_REPOS
            (TrackedDoc [exTracked 1 ''a'', exTracked 2 ''b'', exTracked 3 ''c'']) trackedState)))
   \<and> distinct (map tr_id (getTrackedRepos (withLocal TRACKED_REPOS
            (TrackedDoc [exTracked 2 ''b'']) trackedState)))
   \<and> distinct (map tr_id (getTrackedRepos (withLocal TRACKED_REPOS
            (TrackedDoc [exTracked 1 ''a'', (exTracked 2 ''b'')\<lparr>tr_pinned := True\<rparr>]) trackedState)))
   \<and> up_id (noUpdates\<lparr>up_id := Some 9\<rparr>) = Some 9
   \<and> 9 \<notin> set (map tr_id (getTrackedRepos trackedState))
   \<and> updateTrackedRepo exWorld 2 (noUpdates\<lparr>up_id := Some 9\<rparr>) trackedState
       = Some (Inr True, withLocal TRACKED_REPOS
            (TrackedDoc [exTracked 1 ''a'', (exTracked 2 ''b'')\<lparr>tr_id := 9\<rparr>]) trackedState)
   \<and> distinct (map tr_id (getTrackedRepos (withLocal TRACKED_REPOS
            (TrackedDoc [exTracked 1 ''a'', (exTracked 2 ''b'')\<lparr>tr_id := 9\<rparr>]) trackedState)))
   \<and> (case up_id (noUpdates\<lparr>up_id := Some 9\<rparr>) of None \<Rightarrow> True
       | Some v \<Rightarrow> v = 2 \<or> v \<notin> set (map tr_id (getTrackedRepos trackedState)))"
proof -
  let ?s1 = "withLocal TRACKED_REPOS
            (TrackedDoc [exTracked 1 ''a'', exTracked 2 ''b'', exTracked 3 ''c'']) trackedState"
  let ?s2 = "withLocal TRACKED_REPOS (TrackedDoc [exTracked 2 ''b'']) trackedState"
  let ?s3 = "withLocal TRACKED_REPOS
            (TrackedDoc [exTracked 1 ''a'', (exTracked 2 ''b'')\<lparr>tr_pinned := True\<rparr>]) trackedState"
  let ?s4 = "withLocal TRACKED_REPOS
            (TrackedDoc [exTracked 1 ''a'', (exTracked 2 ''b'')\<lparr>tr_id := 9\<rparr>]) trackedState"
  let ?u = "noUpdates\<lparr>up_pinned := Some True\<rparr>"
  let ?u9 = "noUpdates\<lparr>up_id := Some 9\<rparr>"
  have ex: "list_ex (\<lambda>r. tr_id r = repo_id (exRepo 2 ''b'')) (getTrackedRepos trackedState)"
    by (simp add: trackedState_repos exTracked_def exRepo_def toRepo_def exApiRepo_def)
  have d: "distinct (map tr_id (getTrackedRepos trackedState))"
    by (simp add: trackedState_repos exTracked_def)
  have add: "addTrackedRepo exWorld (exRepo 3 ''c'') trackedState = Some (Inr True, ?s1)"
    by (simp add: addTrackedRepo_def trackedState_repos setTrackedRepos_trackedState andThen_def)
       (simp add: exTracked_def exRepo_def toRepo_def exApiRepo_def exOwner_def)
  have rm: "removeTrackedRepo exWorld 1 trackedState = Some (Inr True, ?s2)"
    by (simp add: removeTrackedRepo_def trackedState_repos setTrackedRepos_trackedState andThen_def
          exTracked_def)
  have u: "up_id ?u = None" by (simp add: noUpdates_def)
  have c: "case up_id ?u of None \<Rightarrow> True
           | Some v \<Rightarrow> v = 2 \<or> v \<notin> set (map tr_id (getTrackedRepos trackedState))"
    by (simp add: u)
  have "spreadUpdates (exTracked 2 ''b'') ?u = (exTracked 2 ''b'')\<lparr>tr_pinned := True\<rparr>"
    by (simp add: spreadUpdates_def noUpdates_def exTracked_def)
  then have upd: "updateTrackedRepo exWorld 2 ?u trackedState = Some (Inr True, ?s3)"
    by (simp add: updateTrackedRepo_def trackedState_repos setTrackedRepos_trackedState andThen_def)
       (simp add: exTracked_def)
  have u9: "up_id ?u9 = Some 9" by simp
  have fresh: "9 \<notin> set (map tr_id (getTrackedRepos trackedState))"
    by (simp add: trackedState_repos exTracked_def)
  have c9: "case up_id ?u9 of None \<Rightarrow> True
           | Some v \<Rightarrow> v = 2 \<or> v \<notin> set (map tr_id (getTrackedRepos trackedState))"
    using fresh by simp
  have "spreadUpdates (exTracked 2 ''b'') ?u9 = (exTracked 2 ''b'')\<lparr>tr_id := 9\<rparr>"
    by (simp add: spreadUpdates_def noUpdates_def exTracked_def)
  then have upd9: "updateTrackedRepo exWorld 2 ?u9 trackedState = Some (Inr True, ?s4)"
    by (simp add: updateTrackedRepo_def trackedState_repos setTrackedRepos_trackedState andThen_def)
       (simp add: exTracked_def)
  note T = tracked_ids_distinct[where s = trackedState and w = exWorld]
  have a1: "addTrackedRepo exWorld (exRepo 2 ''b'') trackedState = Some (Inr False, trackedState)"
    by (rule T[THEN conjunct1, rule_format, OF ex])
  have a2: "distinct (map tr_id (getTrackedRepos ?s1))"
    by (rule T[THEN conjunct2, THEN conjunct1, rule_format, OF conjI[OF d add]])
  have a3: "distinct (map tr_id (getTrackedRepos ?s2))"
    by (rule T[THEN conjunct2, THEN conjunct2, THEN conjunct1, rule_format, OF conjI[OF d rm]])
  have a4: "distinct (map tr_id (getTrackedRepos ?s3))"
    by (rule T[THEN conjunct2, THEN conjunct2, THEN conjunct2, THEN conjunct1, rule_format,
               OF conjI[OF d conjI[OF c upd]]])
  have a5: "distinct (map tr_id (getTrackedRepos ?s4))"
    by (rule T[THEN conjunct2, THEN conjunct2, THEN conjunct2, THEN conjunct1, rule_format,
               OF conjI[OF d conjI[OF c9 upd9]]])
  have a6: "case up_id ?u9 of None \<Rightarrow> True
           | Some v \<Rightarrow> v = 2 \<or> v \<notin> set (map tr_id (getTrackedRepos trackedState))"
    by (rule T[THEN conjunct2, THEN conjunct2, THEN conjunct2, THEN conjunct2, rule_format,
               OF conjI[OF d conjI[OF upd9 a5]]])
  show ?thesis by (intro conjI ex a1 d add rm u upd a2 a3 a4 u9 fresh upd9 a5 a6)
qed

text \<open>
  Claim C10 as stated fails: \<^verbatim>\<open>updateTrackedRepo(1, {id: 2})\<close> on a list with the
  ids 1 and 2 spreads the update over the first entry and stores two entries
  with the id 2.
\<close>

theorem updateTrackedRepo_duplicates:
  "distinct (map tr_id (getTrackedRepos trackedState))
   \<and> updateTrackedRepo exWorld 1 (noUpdates\<lparr>up_id := Some 2\<rparr>) trackedState
       = Some (Inr True, withLocal TRACKED_REPOS
                 (TrackedDoc [(exTracked 1 ''a'')\<lparr>tr_id := 2\<rparr>, exTracked 2 ''b'']) trackedState)
   \<and> map tr_id (getTrackedRepos (withLocal TRACKED_REPOS
                 (TrackedDoc [(exTracked 1 ''a'')\<lparr>tr_id := 2\<rparr>, exTracked 2 ''b'']) trackedState))
       = [2, 2]"
proof (intro conjI)
  show "distinct (map tr_id (getTrackedRepos trackedState))"
    by (simp add: trackedState_repos exTracked_def)
  have "spreadUpdates (exTracked 1 ''a'') (noUpdates\<lparr>up_id := Some 2\<rparr>) = (exTracked 1 ''a'')\<lparr>tr_id := 2\<rparr>"
    by (simp add: spreadUpdates_def noUpdates_def exTracked_def)
  then show "updateTrackedRepo exWorld 1 (noUpdates\<lparr>up_id := Some 2\<rparr>) trackedState
       = Some (Inr True, withLocal TRACKED_REPOS
                 (TrackedDoc [(exTracked 1 ''a'')\<lparr>tr_id := 2\<rparr>, exTracked 2 ''b'']) trackedState)"
    by (simp add: updateTrackedRepo_def trackedState_repos setTrackedRepos_trackedState andThen_def)
       (simp add: exTracked_def)
  show "map tr_id (getTrackedRepos (withLocal TRACKED_REPOS
                 (TrackedDoc [(exTracked 1 ''a'')\<lparr>tr_id := 2\<rparr>, exTracked 2 ''b'']) trackedState))
       = [2, 2]"
    by (simp add: getTrackedRepos_withLocal exTracked_def)
qed

subsection \<open>The TTL cache\<close>

lemma getCache_written:
  "getCache (put_store (getActiveStorage s)
      ((store (getActiveStorage s) s)(CACHE \<mapsto> CacheDoc c)) s) = c"
  by (simp add: getCache_def store_put_store getActiveStorage_put_store CACHE_def PAT_def)

lemma setCachedValue_written:
  assumes "setCachedValue w key d ttlMinutes s = Some (Inr (), s')"
  shows "getCache s' = (getCache s)(key \<mapsto> \<lparr>data = d, expires = now w + ttlMinutes * 60 * 1000,
                                             timestamp = now w\<rparr>)"
  using safeSetItem_cases[OF assms[unfolded setCachedValue_def setCache_def Let_def]]
  by (auto simp: getCache_written)

lemma getCache_withLocal_exState: "getCache (withLocal CACHE (CacheDoc c) exState) = c"
  by (simp add: getCache_def getActiveStorage_def store_def withLocal_def exState_def
        PAT_def CACHE_def)

text \<open>
  Claim C3, amended. \<^verbatim>\<open>getCachedValue\<close> answers \<^verbatim>\<open>null\<close> exactly when the
  cache has no entry for the key, or the entry's \<^verbatim>\<open>expires\<close> is not 0 and lies
  before the current time, or the stored payload is itself \<^verbatim>\<open>null\<close>. A value
  written by \<^verbatim>\<open>setCachedValue\<close> with a TTL and read at any time up to the time
  of writing plus the TTL is returned unchanged, and the write happens whenever
  the browser admits it.
\<close>

theorem getCachedValue_ttl:
  "(getCachedValue w key s = None \<longleftrightarrow>
      (case getCache s key of
         None \<Rightarrow> True
       | Some e \<Rightarrow> (expires e \<noteq> 0 \<and> now w > expires e) \<or> data e = None))
   \<and> (setCachedValue w key d ttlMinutes s = Some (Inr (), s')
        \<and> t \<le> now w + ttlMinutes * 60 * 1000 \<longrightarrow>
        getCachedValue (w\<lparr>now := t\<rparr>) key s' = d)
   \<and> (quota w (store (getActiveStorage s) s) CACHE
          (CacheDoc ((getCache s)(key \<mapsto> \<lparr>data = d, expires = now w + ttlMinutes * 60 * 1000,
                                             timestamp = now w\<rparr>))) \<longrightarrow>
        (\<exists>s2. setCachedValue w key d ttlMinutes s = Some (Inr (), s2)))"
proof (intro conjI impI)
  show "getCachedValue w key s = None \<longleftrightarrow>
      (case getCache s key of
         None \<Rightarrow> True
       | Some e \<Rightarrow> (expires e \<noteq> 0 \<and> now w > expires e) \<or> data e = None)"
    by (simp add: getCachedValue_def split: option.splits)
next
  assume a: "setCachedValue w key d ttlMinutes s = Some (Inr (), s')
        \<and> t \<le> now w + ttlMinutes * 60 * 1000"
  then have run: "setCachedValue w key d ttlMinutes s = Some (Inr (), s')"
    and le: "t \<le> now w + ttlMinutes * 60 * 1000" by simp_all
  from le show "getCachedValue (w\<lparr>now := t\<rparr>) key s' = d"
    by (simp add: getCachedValue_def setCachedValue_written[OF run])
next
  assume "quota w (store (getActiveStorage s) s) CACHE
          (CacheDoc ((getCache s)(key \<mapsto> \<lparr>data = d, expires = now w + ttlMinutes * 60 * 1000,
                                             timestamp = now w\<rparr>)))"
  then show "\<exists>s2. setCachedValue w key d ttlMinutes s = Some (Inr (), s2)"
    by (simp add: setCachedValue_def setCache_def Let_def safeSetItem_closed)
qed

theorem getCachedValue_ttl_witness:
  "setCachedValue exWorld ''k'' (Some [exRepo 1 ''a'']) 5 exState
     = Some (Inr (), withLocal CACHE
         (CacheDoc [''k'' \<mapsto> \<lparr>data = Some [exRepo 1 ''a''], expires = 2300000,
                                 timestamp = 2000000\<rparr>]) exState)
   \<and> (2300000::int) \<le> now exWorld + 5 * 60 * 1000
   \<and> quota exWorld (store (getActiveStorage exState) exState) CACHE
          (CacheDoc ((getCache exState)(''k'' \<mapsto> \<lparr>data = Some [exRepo 1 ''a''],
               expires = now exWorld + 5 * 60 * 1000, timestamp = now exWorld\<rparr>)))
   \<and> getCachedValue (exWorld\<lparr>now := 2300000\<rparr>) ''k'' (withLocal CACHE
         (CacheDoc [''k'' \<mapsto> \<lparr>data = Some [exRepo 1 ''a''], expires = 2300000,
                                 timestamp = 2000000\<rparr>]) exState) = Some [exRepo 1 ''a'']
   \<and> getCachedValue (exWorld\<lparr>now := 2300001\<rparr>) ''k'' (withLocal CACHE
         (CacheDoc [''k'' \<mapsto> \<lparr>data = Some [exRepo 1 ''a''], expires = 2300000,
                                 timestamp = 2000000\<rparr>]) exState) = None"
proof -
  let ?e = "\<lparr>data = Some [exRepo 1 ''a''], expires = 2300000, timestamp = 2000000\<rparr>"
  let ?s' = "withLocal CACHE (CacheDoc [''k'' \<mapsto> ?e]) exState"
  have c0: "getCache exState = Map.empty"
    by (simp add: getCache_def exState_active store_def) (simp add: exState_def CACHE_def PAT_def)
  have n: "now exWorld = 2000000" by (simp add: exWorld_def)
  have run: "setCachedValue exWorld ''k'' (Some [exRepo 1 ''a'']) 5 exState = Some (Inr (), ?s')"
    by (simp add: setCachedValue_def setCache_def safeSetItem_closed exWorld_quota c0 n
          exState_active store_def put_store_def withLocal_def)
  have le: "(2300000::int) \<le> now exWorld + 5 * 60 * 1000" by (simp add: n)
  have q: "quota exWorld (store (getActiveStorage exState) exState) CACHE
          (CacheDoc ((getCache exState)(''k'' \<mapsto> \<lparr>data = Some [exRepo 1 ''a''],
               expires = now exWorld + 5 * 60 * 1000, timestamp = now exWorld\<rparr>)))"
    by (rule exWorld_quota)
  have fresh: "getCachedValue (exWorld\<lparr>now := 2300000\<rparr>) ''k'' ?s' = Some [exRepo 1 ''a'']"
    using getCachedValue_ttl[of exWorld "''k''" exState "Some [exRepo 1 ''a'']" 5 ?s' 2300000]
      run le by blast
  have stale: "getCachedValue (exWorld\<lparr>now := 2300001\<rparr>) ''k'' ?s' = None"
    using getCachedValue_ttl[of "exWorld\<lparr>now := 2300001\<rparr>" "''k''" ?s', THEN conjunct1]
    by (simp add: getCache_withLocal_exState)
  show ?thesis by (intro conjI run le q fresh stale)
qed

text \<open>
  Claim C3 as stated fails: the test \<^verbatim>\<open>entry.expires && Date.now() > entry.expires\<close>
  never expires an entry whose \<^verbatim>\<open>expires\<close> is 0, so its payload is returned
  although the current time is past it.
\<close>

theorem getCachedValue_expires_zero:
  "getCache zeroState ''k'' = Some \<lparr>data = Some [exRepo 1 ''a''], expires = 0, timestamp = 0\<rparr>
   \<and> now exWorld > 0
   \<and> getCachedValue exWorld ''k'' zeroState = Some [exRepo 1 ''a'']"
  by (simp add: getCachedValue_def zeroState_def getCache_withLocal_exState exWorld_def)

subsection \<open>The credential\<close>

lemma clearAuth_getEither:
  "k \<in> {PAT, USER_INFO, ORGANIZATIONS, ORGANIZATIONS_TIMESTAMP} \<Longrightarrow> getEither (clearAuth s) k = None"
  by (auto simp: getEither_def clearAuth_def removeItem_def)

lemma getEither_location [simp]: "getEither (s\<lparr>location := l\<rparr>) k = getEither s k"
  by (simp add: getEither_def)

lemma getEither_requests [simp]: "getEither (s\<lparr>requests := l\<rparr>) k = getEither s k"
  by (simp add: getEither_def)

text \<open>
  Claim C8. A request that is answered with status 401 removes the token, the
  profile, the organizations and their timestamp from both stores and sends the
  page to auth.html; INVALID_TOKEN is thrown with the state so changed, in which
  no credential is present.
\<close>

theorem githubAPI_401_clears:
  "truthy (getStoredPAT s) \<and> net (requestUrl endpoint) = Http 401 remaining b \<longrightarrow>
     githubAPI net endpoint s
       = (Inl INVALID_TOKEN,
          (clearAuth (s\<lparr>requests := requests s @ [requestUrl endpoint]\<rparr>))\<lparr>location := ''auth.html''\<rparr>)
     \<and> getStoredPAT (snd (githubAPI net endpoint s)) = None
     \<and> getEither (snd (githubAPI net endpoint s)) USER_INFO = None
     \<and> getEither (snd (githubAPI net endpoint s)) ORGANIZATIONS = None
     \<and> getEither (snd (githubAPI net endpoint s)) ORGANIZATIONS_TIMESTAMP = None
     \<and> localStorage (snd (githubAPI net endpoint s)) PAT = None
     \<and> sessionStorage (snd (githubAPI net endpoint s)) PAT = None"
proof (intro impI)
  assume a: "truthy (getStoredPAT s) \<and> net (requestUrl endpoint) = Http 401 remaining b"
  then have run: "githubAPI net endpoint s
       = (Inl INVALID_TOKEN,
          (clearAuth (s\<lparr>requests := requests s @ [requestUrl endpoint]\<rparr>))\<lparr>location := ''auth.html''\<rparr>)"
    by (simp add: githubAPI_def Let_def)
  show "githubAPI net endpoint s
       = (Inl INVALID_TOKEN,
          (clearAuth (s\<lparr>requests := requests s @ [requestUrl endpoint]\<rparr>))\<lparr>location := ''auth.html''\<rparr>)
     \<and> getStoredPAT (snd (githubAPI net endpoint s)) = None
     \<and> getEither (snd (githubAPI net endpoint s)) USER_INFO = None
     \<and> getEither (snd (githubAPI net endpoint s)) ORGANIZATIONS = None
     \<and> getEither (snd (githubAPI net endpoint s)) ORGANIZATIONS_TIMESTAMP = None
     \<and> localStorage (snd (githubAPI net endpoint s)) PAT = None
     \<and> sessionStorage (snd (githubAPI net endpoint s)) PAT = None"
    unfolding run
    by (simp add: getStoredPAT_def clearAuth_getEither) (simp add: clearAuth_def removeItem_def)
qed

theorem githubAPI_401_clears_witness:
  "truthy (getStoredPAT profileState)
   \<and> (\<lambda>u. Http 401 None ([] :: apirepo list)) (requestUrl \<lparr>path = ''/user/repos'', query = []\<rparr>)
       = Http 401 None []
   \<and> truthy (getEither profileState USER_INFO)
   \<and> fst (githubAPI (\<lambda>u. Http 401 None ([] :: apirepo list))
            \<lparr>path = ''/user/repos'', query = []\<rparr> profileState) = Inl INVALID_TOKEN
   \<and> getStoredPAT (snd (githubAPI (\<lambda>u. Http 401 None ([] :: apirepo list))
            \<lparr>path = ''/user/repos'', query = []\<rparr> profileState)) = None
   \<and> getEither (snd (githubAPI (\<lambda>u. Http 401 None ([] :: apirepo list))
            \<lparr>path = ''/user/repos'', query = []\<rparr> profileState)) USER_INFO = None"
proof -
  have p: "truthy (getStoredPAT profileState)"
    by (simp add: getStoredPAT_def getEither_def profileState_def withLocal_def exState_def
          PAT_def USER_INFO_def ORGANIZATIONS_def ORGANIZATIONS_TIMESTAMP_def)
  have u: "truthy (getEither profileState USER_INFO)"
    by (simp add: getEither_def profileState_def withLocal_def exState_def
          PAT_def USER_INFO_def ORGANIZATIONS_def ORGANIZATIONS_TIMESTAMP_def)
  have n: "(\<lambda>u. Http 401 None ([] :: apirepo list)) (requestUrl \<lparr>path = ''/user/repos'', query = []\<rparr>)
       = Http 401 None []" by simp
  note T = githubAPI_401_clears[of profileState "\<lambda>u. Http 401 None ([] :: apirepo list)"
              "\<lparr>path = ''/user/repos'', query = []\<rparr>" None "[]", rule_format, OF conjI[OF p n]]
  have f: "fst (githubAPI (\<lambda>u. Http 401 None ([] :: apirepo list))
            \<lparr>path = ''/user/repos'', query = []\<rparr> profileState) = Inl INVALID_TOKEN"
    using T[THEN conjunct1] by simp
  show ?thesis
    by (intro conjI p n u f T[THEN conjunct2, THEN conjunct1]
          T[THEN conjunct2, THEN conjunct2, THEN conjunct1])
qed

lemma requireAuth_absent:
  "\<not> truthy (getStoredPAT s) \<Longrightarrow> requireAuth s = (False, s\<lparr>location := ''auth.html''\<rparr>)"
  by (simp add: requireAuth_def)

text \<open>
  Claim C7, amended. Without a stored credential \<^verbatim>\<open>initRepositories\<close> and
  \<^verbatim>\<open>initOrganizations\<close> send the page to auth.html and return the empty
  list to their caller; no error is thrown and no request is issued.
\<close>

theorem sync_without_credential:
  "\<not> truthy (getStoredPAT s) \<longrightarrow>
     initRepositories w forceRefresh s = Some (Inr [], s\<lparr>location := ''auth.html''\<rparr>)
     \<and> initOrganizations w forceRefresh s = (Inr [], s\<lparr>location := ''auth.html''\<rparr>)
     \<and> requests (s\<lparr>location := ''auth.html''\<rparr>) = requests s"
proof (intro impI conjI)
  assume absent: "\<not> truthy (getStoredPAT s)"
  then have guard: "requireAuth s = (False, s\<lparr>location := ''auth.html''\<rparr>)"
    by (rule requireAuth_absent)
  show "initRepositories w forceRefresh s = Some (Inr [], s\<lparr>location := ''auth.html''\<rparr>)"
    unfolding initRepositories_def guard by simp
  show "initOrganizations w forceRefresh s = (Inr [], s\<lparr>location := ''auth.html''\<rparr>)"
    unfolding initOrganizations_def guard by simp
  show "requests (s\<lparr>location := ''auth.html''\<rparr>) = requests s"
    by simp
qed

theorem sync_without_credential_witness:
  "\<not> truthy (getStoredPAT signedOutState)
   \<and> initRepositories exWorld True signedOutState
       = Some (Inr [], signedOutState\<lparr>location := ''auth.html''\<rparr>)
   \<and> initOrganizations exWorld True signedOutState
       = (Inr [], signedOutState\<lparr>location := ''auth.html''\<rparr>)
   \<and> requests (signedOutState\<lparr>location := ''auth.html''\<rparr>) = []"
proof -
  have p: "\<not> truthy (getStoredPAT signedOutState)"
    by (simp add: getStoredPAT_def getEither_def signedOutState_def)
  note T = sync_without_credential[of signedOutState exWorld True, rule_format, OF p]
  have r: "requests (signedOutState\<lparr>location := ''auth.html''\<rparr>) = []"
    using T[THEN conjunct2, THEN conjunct2] by (simp add: signedOutState_def)
  show ?thesis
    by (intro conjI p T[THEN conjunct1] T[THEN conjunct2, THEN conjunct1] r)
qed

text \<open>
  Claim C7 as stated fails: the caller of \<^verbatim>\<open>initRepositories\<close> receives the
  empty list, not an error.
\<close>

theorem initRepositories_signed_out:
  "getStoredPAT signedOutState = None
   \<and> initRepositories exWorld False signedOutState
       = Some (Inr [], signedOutState\<lparr>location := ''auth.html''\<rparr>)"
  by (simp add: initRepositories_def requireAuth_def getStoredPAT_def getEither_def
        signedOutState_def)

subsection \<open>Pagination\<close>

lemma githubAPI_ok:
  assumes "truthy (getStoredPAT s)" and "answers (net (requestUrl endpoint)) b"
  shows "githubAPI net endpoint s = (Inr b, s\<lparr>requests := requests s @ [requestUrl endpoint]\<rparr>)"
  using assms by (auto simp: githubAPI_def answers_def Let_def split: response.splits)

lemma getStoredPAT_requests [simp]: "getStoredPAT (s\<lparr>requests := l\<rparr>) = getStoredPAT s"
  by (simp add: getStoredPAT_def)

lemma fetchAllRepositories_while_run:
  assumes "truthy (getStoredPAT s)"
    and "\<forall>i. p \<le> i \<and> i \<le> p + n \<longrightarrow> answers (repos_net w (pageRequest endpoint params i)) (pages i)"
    and "\<forall>i. p \<le> i \<and> i < p + n \<longrightarrow> perPage \<le> length (pages i)"
    and "length (pages (p + n)) < perPage"
  shows "fetchAllRepositories_while w endpoint params p acc s
         = Some (Inr (acc @ concat (map pages [p..<Suc (p + n)])),
                 s\<lparr>requests := requests s @ map (pageRequest endpoint params) [p..<Suc (p + n)]\<rparr>)"
  using assms
proof (induction n arbitrary: p acc s)
  case 0
  have api: "githubAPI (repos_net w) \<lparr>path = endpoint, query = queryParams params p\<rparr> s
             = (Inr (pages p), s\<lparr>requests := requests s @ [pageRequest endpoint params p]\<rparr>)"
    using githubAPI_ok[OF "0.prems"(1), of "repos_net w" "\<lparr>path = endpoint, query = queryParams params p\<rparr>" "pages p"]
      "0.prems"(2) by (simp add: pageRequest_def)
  show ?case
    using "0.prems"(4)
    by (subst fetchAllRepositories_while.simps) (simp add: api)
next
  case (Suc n)
  have api: "githubAPI (repos_net w) \<lparr>path = endpoint, query = queryParams params p\<rparr> s
             = (Inr (pages p), s\<lparr>requests := requests s @ [pageRequest endpoint params p]\<rparr>)"
    using githubAPI_ok[OF Suc.prems(1), of "repos_net w" "\<lparr>path = endpoint, query = queryParams params p\<rparr>" "pages p"]
      Suc.prems(2) by (simp add: pageRequest_def)
  have full: "perPage \<le> length (pages p)" using Suc.prems(3) by simp
  then have nonempty: "length (pages p) \<noteq> 0" by (auto simp: perPage_def)
  let ?s1 = "s\<lparr>requests := requests s @ [pageRequest endpoint params p]\<rparr>"
  have rec: "fetchAllRepositories_while w endpoint params (Suc p) (acc @ pages p) ?s1
         = Some (Inr ((acc @ pages p) @ concat (map pages [Suc p..<Suc (Suc p + n)])),
                 ?s1\<lparr>requests := requests ?s1 @ map (pageRequest endpoint params) [Suc p..<Suc (Suc p + n)]\<rparr>)"
    using Suc.prems by (intro Suc.IH) auto
  have upt: "[p..<Suc (Suc (p + n))] = p # [Suc p..<Suc (Suc (p + n))]"
    by (simp add: upt_conv_Cons)
  show ?case
    using full nonempty
    by (subst fetchAllRepositories_while.simps) (simp add: api rec upt del: upt_Suc)
qed

lemma pageRequest_query:
  "map_of (query (pageRequest endpoint params i)) ''page'' = Some (QN i)
   \<and> map_of (query (pageRequest endpoint params i)) ''per_page'' = Some (QN 100)"
  by (simp add: pageRequest_def requestUrl_def queryParams_def update_conv' perPage_def)

lemma exState_PAT: "truthy (getStoredPAT exState)"
  by (simp add: getStoredPAT_def getEither_def exState_def)

text \<open>
  Claim C6. With a credential stored, let the pages 1 to \<open>k\<close> be answered
  successfully, every page before \<open>k\<close> with at least 100 items and page \<open>k\<close>
  with fewer than 100. Then \<^verbatim>\<open>fetchAllRepositories\<close> returns, having requested
  exactly the pages 1, 2, ..., \<open>k\<close> in this order, each with its page index and
  \<^verbatim>\<open>per_page\<close> 100, and its result is the pages concatenated in this order. A
  page of 100 items is followed by the request for the next page.
\<close>

theorem fetchAllRepositories_pages:
  "(truthy (getStoredPAT s) \<and> 1 \<le> k
     \<and> (\<forall>i. 1 \<le> i \<and> i \<le> k \<longrightarrow> answers (repos_net w (pageRequest endpoint params i)) (pages i))
     \<and> (\<forall>i. 1 \<le> i \<and> i < k \<longrightarrow> 100 \<le> length (pages i))
     \<and> length (pages k) < 100 \<longrightarrow>
     fetchAllRepositories w endpoint params s
       = Some (Inr (concat (map pages [1..<Suc k])),
               s\<lparr>requests := requests s @ map (pageRequest endpoint params) [1..<Suc k]\<rparr>))
   \<and> map_of (query (pageRequest endpoint params j)) ''page'' = Some (QN j)
   \<and> map_of (query (pageRequest endpoint params j)) ''per_page'' = Some (QN 100)"
proof (intro conjI impI)
  assume a: "truthy (getStoredPAT s) \<and> 1 \<le> k
     \<and> (\<forall>i. 1 \<le> i \<and> i \<le> k \<longrightarrow> answers (repos_net w (pageRequest endpoint params i)) (pages i))
     \<and> (\<forall>i. 1 \<le> i \<and> i < k \<longrightarrow> 100 \<le> length (pages i))
     \<and> length (pages k) < 100"
  then obtain n where k: "k = 1 + n" by (metis le_Suc_ex plus_1_eq_Suc)
  show "fetchAllRepositories w endpoint params s
       = Some (Inr (concat (map pages [1..<Suc k])),
               s\<lparr>requests := requests s @ map (pageRequest endpoint params) [1..<Suc k]\<rparr>)"
    unfolding fetchAllRepositories_def k
    using a fetchAllRepositories_while_run[of s 1 n w endpoint params pages "[]"]
    by (simp add: k perPage_def)
qed (simp_all add: pageRequest_query)


theorem fetchAllRepositories_pages_witness:
  "truthy (getStoredPAT exState)
   \<and> map (\<lambda>i. length (threePages i)) [1, 2, 3] = [100, 100, 37]
   \<and> fetchAllRepositories pagedWorld ''/user/repos'' [(''type'', QS ''all'')] exState
       = Some (Inr (threePages 1 @ threePages 2 @ threePages 3),
               exState\<lparr>requests := map (pageRequest ''/user/repos'' [(''type'', QS ''all'')]) [1, 2, 3]\<rparr>)
   \<and> length (threePages 1 @ threePages 2 @ threePages 3) = 237
   \<and> length (map (pageRequest ''/user/repos'' [(''type'', QS ''all'')]) [1, 2, 3]) = 3"
proof -
  let ?params = "[(''type'', QS ''all'')]"
  have sizes: "map (\<lambda>i. length (threePages i)) [1, 2, 3] = [100, 100, 37]"
    by (simp add: threePages_def)
  have ans: "\<forall>i. 1 \<le> i \<and> i \<le> 3 \<longrightarrow>
               answers (repos_net pagedWorld (pageRequest ''/user/repos'' ?params i)) (threePages i)"
    by (simp add: pagedWorld_def answers_def pageRequest_query)
  have full: "\<forall>i. 1 \<le> i \<and> i < 3 \<longrightarrow> 100 \<le> length (threePages i)"
    by (simp add: threePages_def)
  have short: "length (threePages 3) < 100"
    by (simp add: threePages_def)
  have upt: "[Suc 0..<4] = [Suc 0, 2, 3]"
    by (simp add: upt_conv_Cons)
  have reqs: "requests exState = []" by (simp add: exState_def)
  have run: "fetchAllRepositories pagedWorld ''/user/repos'' ?params exState
       = Some (Inr (threePages 1 @ threePages 2 @ threePages 3),
               exState\<lparr>requests := map (pageRequest ''/user/repos'' ?params) [1, 2, 3]\<rparr>)"
    using fetchAllRepositories_pages[of exState 3 pagedWorld "''/user/repos''" ?params threePages,
            THEN conjunct1, rule_format, OF conjI[OF exState_PAT conjI[OF _ conjI[OF ans conjI[OF full short]]]]]
    by (simp add: upt reqs del: upt_Suc)
  show ?thesis
    using sizes by (intro conjI exState_PAT sizes run) simp_all
qed

subsection \<open>Falling back to the stale cache\<close>

lemma githubAPI_down:
  assumes "truthy (getStoredPAT s)" and "net (requestUrl endpoint) = NetworkFailure"
  shows "githubAPI net endpoint s = (Inl NetworkError, s\<lparr>requests := requests s @ [requestUrl endpoint]\<rparr>)"
  using assms by (simp add: githubAPI_def Let_def)

lemma fetchAllRepositories_down:
  assumes "truthy (getStoredPAT s)"
    and "repos_net w (pageRequest endpoint params 1) = NetworkFailure"
  shows "fetchAllRepositories w endpoint params s
         = Some (Inl NetworkError, s\<lparr>requests := requests s @ [pageRequest endpoint params 1]\<rparr>)"
  unfolding fetchAllRepositories_def
  using githubAPI_down[OF assms(1), of "repos_net w" "\<lparr>path = endpoint, query = queryParams params 1\<rparr>"]
    assms(2)
  by (subst fetchAllRepositories_while.simps) (simp add: pageRequest_def)

lemma getCache_requests [simp]: "getCache (s\<lparr>requests := l\<rparr>) = getCache s"
  by (simp add: getCache_def getActiveStorage_def store_def split: which.splits)

lemma getCachedValue_requests [simp]:
  "getCachedValue w key (s\<lparr>requests := l\<rparr>) = getCachedValue w key s"
  by (simp add: getCachedValue_def)

lemma requireAuth_present: "truthy (getStoredPAT s) \<Longrightarrow> requireAuth s = (True, s)"
  by (simp add: requireAuth_def)

lemma initRepositories_expired_network_down:
  assumes "truthy (getStoredPAT s)"
    and "getCache s cacheKey = Some e" and "expires e \<noteq> 0" and "expires e < now w"
    and "repos_net w (pageRequest ''/user/repos''
            [(''type'', QS ''all''), (''sort'', QS ''updated''),
             (''affiliation'', QS ''owner,collaborator,organization_member'')] 1) = NetworkFailure"
  shows "initRepositories w forceRefresh s
         = Some (Inl NetworkError,
                 s\<lparr>requests := requests s @ [pageRequest ''/user/repos''
                    [(''type'', QS ''all''), (''sort'', QS ''updated''),
                     (''affiliation'', QS ''owner,collaborator,organization_member'')] 1]\<rparr>)"
proof -
  have miss: "getCachedValue w cacheKey s = None"
    using assms(2-4) by (simp add: getCachedValue_def)
  have fetch: "fetchAllUserRepositories w s
         = Some (Inl NetworkError,
                 s\<lparr>requests := requests s @ [pageRequest ''/user/repos''
                    [(''type'', QS ''all''), (''sort'', QS ''updated''),
                     (''affiliation'', QS ''owner,collaborator,organization_member'')] 1]\<rparr>)"
    by (simp add: fetchAllUserRepositories_def fetchUserRepositories_def
          fetchAllRepositories_down[OF assms(1) assms(5)] andThen_def)
  show ?thesis
    by (simp add: initRepositories_def requireAuth_present[OF assms(1)]
          isRepositoriesCacheValid_def getStoredRepositories_def miss fetch andThen_def orCatch_def)
qed

lemma withLocal_PAT: "k \<noteq> PAT \<Longrightarrow> truthy (getStoredPAT (withLocal k v exState))"
  by (simp add: getStoredPAT_def getEither_def withLocal_def exState_def)

text \<open>
  Claim C1 asks that a sync whose fetch fails with a network error returns the
  expired cached payload. \<^verbatim>\<open>initRepositories\<close> does not: its \<^verbatim>\<open>catch\<close> block
  reads the cache through \<^verbatim>\<open>getStoredRepositories\<close>, that is through
  \<^verbatim>\<open>getCachedValue\<close>, which answers \<^verbatim>\<open>null\<close> for an expired entry, and the
  error is thrown again. With the repository list cached until 1000000, the
  clock at 2000000 and the network down, the caller gets NetworkError, with and
  without \<^verbatim>\<open>forceRefresh\<close>.
\<close>

theorem initRepositories_stale_not_returned:
  "getCache staleState cacheKey
     = Some \<lparr>data = Some [exRepo 1 ''a''], expires = 1000000, timestamp = 700000\<rparr>
   \<and> 1000000 < now exWorld
   \<and> initRepositories exWorld False staleState
       = Some (Inl NetworkError,
               staleState\<lparr>requests := [pageRequest ''/user/repos''
                    [(''type'', QS ''all''), (''sort'', QS ''updated''),
                     (''affiliation'', QS ''owner,collaborator,organization_member'')] 1]\<rparr>)
   \<and> initRepositories exWorld True staleState
       = Some (Inl NetworkError,
               staleState\<lparr>requests := [pageRequest ''/user/repos''
                    [(''type'', QS ''all''), (''sort'', QS ''updated''),
                     (''affiliation'', QS ''owner,collaborator,organization_member'')] 1]\<rparr>)"
proof -
  have c: "getCache staleState cacheKey
     = Some \<lparr>data = Some [exRepo 1 ''a''], expires = 1000000, timestamp = 700000\<rparr>"
    by (simp add: staleState_def getCache_withLocal_exState)
  have n: "1000000 < now exWorld" by (simp add: exWorld_def)
  have p: "truthy (getStoredPAT staleState)"
    unfolding staleState_def by (rule withLocal_PAT) (simp add: CACHE_def PAT_def)
  have d: "repos_net exWorld (pageRequest ''/user/repos''
            [(''type'', QS ''all''), (''sort'', QS ''updated''),
             (''affiliation'', QS ''owner,collaborator,organization_member'')] 1) = NetworkFailure"
    by (simp add: exWorld_def)
  have r: "requests staleState = []"
    by (simp add: staleState_def withLocal_def exState_def)
  have run: "initRepositories exWorld forceRefresh staleState
       = Some (Inl NetworkError,
               staleState\<lparr>requests := [pageRequest ''/user/repos''
                    [(''type'', QS ''all''), (''sort'', QS ''updated''),
                     (''affiliation'', QS ''owner,collaborator,organization_member'')] 1]\<rparr>)"
    for forceRefresh
    using initRepositories_expired_network_down[OF p c _ _ d, of forceRefresh] n
    by (simp add: r)
  show ?thesis by (intro conjI c n run)
qed

text \<open>
  The organizations are read without the TTL test: a failed fetch falls back
  to the stored organizations however old they are.
\<close>

lemma initOrganizations_stale_fallback:
  assumes "truthy (getStoredPAT s)"
    and "orgs_net w (requestUrl \<lparr>path = ''/user/orgs'', query = []\<rparr>) = NetworkFailure"
    and "getEither s ORGANIZATIONS = Some (OrgsDoc orgs)"
  shows "initOrganizations w True s
         = (Inr orgs, s\<lparr>requests := requests s @ [requestUrl \<lparr>path = ''/user/orgs'', query = []\<rparr>]\<rparr>)"
  using assms
  by (simp add: initOrganizations_def requireAuth_present fetchOrganizations_def
        githubAPI_down getStoredOrganizations_def)

subsection \<open>Writes that exceed the quota\<close>

lemma safeSetItem_quota_never_succeeds:
  "\<not> quota w (store (if useSession then Session else getActiveStorage s) s) key val \<Longrightarrow>
   safeSetItem w key val useSession s \<noteq> Some (Inr (), s')"
  by (simp add: safeSetItem_closed Let_def)

text \<open>
  Claim C2 asks that a write that first exceeds the quota succeeds after the
  expired cache entries are evicted. \<^verbatim>\<open>safeSetItem\<close> never retries:
  \<^verbatim>\<open>handleQuotaExceeded\<close> evicts the expired entries, removes the whole cache
  and then always throws, so the second \<^verbatim>\<open>setItem\<close> is not reached. Here the
  store rejects the first write, would admit it after the eviction of the
  expired entry and also after the removal of the cache, and the call throws
  STORAGE_QUOTA_EXCEEDED with nothing written and the cache gone.
\<close>

theorem safeSetItem_no_retry:
  "\<not> quota fullWorld (localStorage fullState) TRACKED_REPOS (TrackedDoc [exTracked 1 ''a''])
   \<and> quota fullWorld ((localStorage fullState)(CACHE \<mapsto> CacheDoc (cleaned (now fullWorld) (getCache fullState))))
        TRACKED_REPOS (TrackedDoc [exTracked 1 ''a''])
   \<and> quota fullWorld (removeItem (localStorage fullState) CACHE)
        TRACKED_REPOS (TrackedDoc [exTracked 1 ''a''])
   \<and> safeSetItem fullWorld TRACKED_REPOS (TrackedDoc [exTracked 1 ''a'']) False fullState
       = Some (Inl STORAGE_QUOTA_EXCEEDED, exState)
   \<and> getTrackedRepos exState = []"
proof -
  have act: "getActiveStorage fullState = Local"
    by (simp add: getActiveStorage_def fullState_def withLocal_def exState_def PAT_def CACHE_def)
  have q1: "\<not> quota fullWorld (localStorage fullState) TRACKED_REPOS (TrackedDoc [exTracked 1 ''a''])"
    by (simp add: fullWorld_def fullState_def withLocal_def TRACKED_REPOS_def CACHE_def)
  have cl: "cleaned (now fullWorld) (getCache fullState) = Map.empty"
    by (auto simp: cleaned_def fullState_def getCache_withLocal_exState fullWorld_def exWorld_def fun_eq_iff)
  have q2: "quota fullWorld ((localStorage fullState)(CACHE \<mapsto> CacheDoc (cleaned (now fullWorld) (getCache fullState))))
        TRACKED_REPOS (TrackedDoc [exTracked 1 ''a''])"
    by (simp add: cl) (simp add: fullWorld_def)
  have q3: "quota fullWorld (removeItem (localStorage fullState) CACHE)
        TRACKED_REPOS (TrackedDoc [exTracked 1 ''a''])"
    by (simp add: fullWorld_def removeItem_def)
  have q4: "quota fullWorld (localStorage fullState) CACHE v" for v
    by (simp add: fullWorld_def)
  have st: "put_store Local (removeItem (localStorage fullState) CACHE) fullState = exState"
    by (simp add: put_store_def removeItem_def fullState_def withLocal_def)
       (simp add: exState_def PAT_def CACHE_def)
  have run: "safeSetItem fullWorld TRACKED_REPOS (TrackedDoc [exTracked 1 ''a'']) False fullState
       = Some (Inl STORAGE_QUOTA_EXCEEDED, exState)"
    using q1 by (simp add: safeSetItem_closed act store_def q4 st)
  have t: "getTrackedRepos exState = []"
    by (simp add: getTrackedRepos_def exState_active store_def)
       (simp add: exState_def TRACKED_REPOS_def PAT_def)
  show ?thesis by (intro conjI q1 q2 q3 run t)
qed

subsection \<open>Merging and deduplicating repositories\<close>

lemma newMap_fold_map_of:
  "map_of (foldl (\<lambda>m (k, v). AList.update k v m) acc ps) = map_of acc ++ map_of (rev ps)"
  by (induction ps arbitrary: acc)
     (auto simp: update_conv' fun_eq_iff map_add_def split: option.splits)

lemma newMap_fold_distinct:
  "distinct (map fst acc) \<Longrightarrow>
   distinct (map fst (foldl (\<lambda>m (k, v). AList.update k v m) acc ps))"
  by (induction ps arbitrary: acc) (auto simp: distinct_update)

lemma newMap_fold_keys:
  "fst ` set (foldl (\<lambda>m (k, v). AList.update k v m) acc ps) = fst ` set acc \<union> fst ` set ps"
proof (induction ps arbitrary: acc)
  case Nil
  then show ?case by simp
next
  case (Cons p ps)
  obtain k v where p: "p = (k, v)" by (cases p)
  show ?case
    unfolding p by (simp add: Cons.IH dom_update)
qed

lemma set_update_cases:
  "p \<in> set (AList.update k v al) \<Longrightarrow> p = (k, v) \<or> p \<in> set al"
  by (induction al) (auto split: if_splits)

lemma newMap_fold_tagged:
  "\<forall>(k, v)\<in>set acc. k = f v \<Longrightarrow>
   \<forall>(k, v)\<in>set (foldl (\<lambda>m (k, v). AList.update k v m) acc (map (\<lambda>x. (f x, x)) xs)). k = f v"
proof (induction xs arbitrary: acc)
  case Nil
  then show ?case by simp
next
  case (Cons x xs)
  have "\<forall>(k, v)\<in>set (AList.update (f x) x acc). k = f v"
    using Cons.prems by (auto dest: set_update_cases)
  from Cons.IH[OF this] show ?case by simp
qed

lemma uniqueRepos_tagged:
  "\<forall>(k, v)\<in>set (newMap (map (\<lambda>r. (repo_id r, r)) xs)). k = repo_id v"
  unfolding newMap_def by (rule newMap_fold_tagged) simp

lemma uniqueRepos_ids:
  "map repo_id (uniqueRepos xs) = map fst (newMap (map (\<lambda>r. (repo_id r, r)) xs))"
  using uniqueRepos_tagged[of xs] unfolding uniqueRepos_def by (auto simp: map_eq_conv)

lemma uniqueRepos_distinct: "distinct (map repo_id (uniqueRepos xs))"
  by (simp add: uniqueRepos_ids newMap_def newMap_fold_distinct)

lemma uniqueRepos_set_ids: "set (map repo_id (uniqueRepos xs)) = set (map repo_id xs)"
  by (simp add: uniqueRepos_ids newMap_def newMap_fold_keys image_image)

lemma find_map_of_tagged:
  "find (\<lambda>r. f r = i) xs = map_of (map (\<lambda>r. (f r, r)) xs) i"
  by (induction xs) auto

lemma find_snd_tagged:
  "\<forall>(k, v)\<in>set al. k = f v \<Longrightarrow> find (\<lambda>r. f r = i) (map snd al) = map_of al i"
  by (induction al) auto

lemma uniqueRepos_find:
  "find (\<lambda>r. repo_id r = i) (uniqueRepos xs) = find (\<lambda>r. repo_id r = i) (rev xs)"
proof -
  have "find (\<lambda>r. repo_id r = i) (uniqueRepos xs)
        = map_of (newMap (map (\<lambda>r. (repo_id r, r)) xs)) i"
    unfolding uniqueRepos_def by (rule find_snd_tagged[OF uniqueRepos_tagged])
  also have "\<dots> = map_of (rev (map (\<lambda>r. (repo_id r, r)) xs)) i"
    by (simp add: newMap_def newMap_fold_map_of)
  also have "\<dots> = find (\<lambda>r. repo_id r = i) (rev xs)"
    by (simp add: find_map_of_tagged rev_map)
  finally show ?thesis .
qed

lemma find_append_case:
  "find P (xs @ ys) = (case find P xs of Some x \<Rightarrow> Some x | None \<Rightarrow> find P ys)"
  by (induction xs) auto


lemma awaitAll_done: "pendingIndices ps = [] \<Longrightarrow> awaitAll w ps s = Some (ps, s)"
  by (subst awaitAll.simps) simp

lemma pendingIndices_empty_iff: "pendingIndices ps = [] \<longleftrightarrow> (\<forall>p\<in>set ps. \<not> isPending p)"
  by (auto simp: pendingIndices_def filter_empty_conv in_set_conv_nth Ball_def)



lemma fetchAllUserRepositories_unfold:
  assumes "fetchUserRepositories w s = Some (Inr userRepos, s1)"
    and "initOrganizations w False s1 = (Inr organizations, s2)"
    and "orgReposPromises organizations s2 = (promises, s3)"
  shows "fetchAllUserRepositories w s
         = Option.bind (awaitAll w promises s3)
             (\<lambda>(settled, s4).
                Some (Inr (uniqueRepos (userRepos @ concat (map caught settled))), s4))"
  using assms by (simp add: fetchAllUserRepositories_def andThen_def Let_def)


subsection \<open>The organization fetches run together\<close>

lemma sameStores_refl [simp]: "sameStores s s"
  by (simp add: sameStores_def)

lemma sameStores_sym: "sameStores s t \<Longrightarrow> sameStores t s"
  by (simp add: sameStores_def)

lemma sameStores_trans: "sameStores s t \<Longrightarrow> sameStores t u \<Longrightarrow> sameStores s u"
  by (simp add: sameStores_def)

lemma sameStores_PAT: "sameStores s t \<Longrightarrow> getStoredPAT s = getStoredPAT t"
  by (simp add: sameStores_def getStoredPAT_def getEither_def)

lemma githubAPI_halves:
  "githubAPI net endpoint s
   = (case githubAPI_send endpoint s of
        (Inl e, s0) \<Rightarrow> (Inl e, s0)
      | (Inr u, s1) \<Rightarrow> githubAPI_receive (net u) s1)"
  by (simp add: githubAPI_def githubAPI_send_def githubAPI_receive_def Let_def)

lemma githubAPI_send_stores:
  "sameStores (snd (githubAPI_send endpoint s)) s"
  by (simp add: githubAPI_send_def sameStores_def Let_def)

lemma githubAPI_send_same:
  "sameStores s t \<Longrightarrow> fst (githubAPI_send endpoint s) = fst (githubAPI_send endpoint t)"
  by (simp add: githubAPI_send_def Let_def sameStores_PAT)

lemma githubAPI_receive_same:
  "fst (githubAPI_receive r s) = fst (githubAPI_receive r t)"
  by (simp add: githubAPI_receive_def split: response.splits)

lemma githubAPI_receive_stores:
  "sameStores s t \<Longrightarrow> sameStores (snd (githubAPI_receive r s)) (snd (githubAPI_receive r t))"
  by (simp add: githubAPI_receive_def sameStores_def clearAuth_def split: response.splits)

lemma githubAPI_receive_not401:
  "not401 r \<Longrightarrow> snd (githubAPI_receive r s) = s"
  by (simp add: githubAPI_receive_def not401_def split: response.splits)

lemma requestPage_same:
  "sameStores s t \<Longrightarrow> fst (requestPage ep ps page repos s) = fst (requestPage ep ps page repos t)"
  using githubAPI_send_same[of s t "\<lparr>path = ep, query = queryParams ps page\<rparr>"]
  by (auto simp: requestPage_def split: prod.splits sum.splits)

lemma requestPage_stores: "sameStores (snd (requestPage ep ps page repos s)) s"
  using githubAPI_send_stores[of "\<lparr>path = ep, query = queryParams ps page\<rparr>" s]
  by (auto simp: requestPage_def split: prod.splits sum.splits)

lemma requestPage_stores2:
  assumes "sameStores s t"
  shows "sameStores (snd (requestPage ep ps page repos s)) (snd (requestPage ep ps page repos t))"
  using requestPage_stores[of ep ps page repos s] requestPage_stores[of ep ps page repos t] assms
  by (simp add: sameStores_def)

lemma resume_Pending:
  "resume w (Pending ep ps page repos) s =
     (case githubAPI_receive (repos_net w (requestUrl \<lparr>path = ep, query = queryParams ps page\<rparr>)) s of
        (Inl e, s1) \<Rightarrow> (Rejected e, s1)
      | (Inr pageRepos, s1) \<Rightarrow>
          if length pageRepos = 0 then (Fulfilled (map toRepo repos), s1)
          else if length pageRepos < perPage
          then (Fulfilled (map toRepo (repos @ pageRepos)), s1)
          else requestPage ep ps (page + 1) (repos @ pageRepos) s1)"
  by (simp add: requestPage_def split: prod.splits sum.splits)

lemma call_requestPage:
  "fetchOrganizationRepositories_call orgLogin s
   = requestPage (''/orgs/'' @ orgLogin @ ''/repos'') [(''type'', QS ''all''), (''sort'', QS ''updated'')] 1 [] s"
  by (simp add: fetchOrganizationRepositories_call_def requestPage_def Let_def
        split: prod.splits sum.splits)

lemma resume_same:
  assumes "sameStores s t"
  shows "fst (resume w p s) = fst (resume w p t)
         \<and> sameStores (snd (resume w p s)) (snd (resume w p t))"
proof (cases p)
  case (Pending ep ps page repos)
  let ?r = "repos_net w (requestUrl \<lparr>path = ep, query = queryParams ps page\<rparr>)"
  obtain a s1 where rs: "githubAPI_receive ?r s = (a, s1)" by (cases "githubAPI_receive ?r s")
  obtain b t1 where rt: "githubAPI_receive ?r t = (b, t1)" by (cases "githubAPI_receive ?r t")
  from githubAPI_receive_same[of ?r s t] rs rt have ab: "a = b" by simp
  from githubAPI_receive_stores[OF assms, of ?r] rs rt have st: "sameStores s1 t1" by simp
  show ?thesis
    unfolding Pending resume_Pending rs rt ab
    using st requestPage_same[OF st] requestPage_stores2[OF st]
    by (auto split: sum.splits)
qed (use assms in simp_all)

lemma resume_not401:
  assumes "\<forall>u. not401 (repos_net w u)"
  shows "sameStores (snd (resume w p s)) s"
proof (cases p)
  case (Pending ep ps page repos)
  let ?r = "repos_net w (requestUrl \<lparr>path = ep, query = queryParams ps page\<rparr>)"
  obtain a s1 where rs: "githubAPI_receive ?r s = (a, s1)" by (cases "githubAPI_receive ?r s")
  from githubAPI_receive_not401[of ?r s] assms rs have "s1 = s" by simp
  then show ?thesis
    unfolding Pending resume_Pending rs
    using requestPage_stores[of _ _ _ _ s]
    by (auto split: sum.splits)
qed simp_all

lemma runAlone_same:
  "sameStores s t \<Longrightarrow> runAlone w n p s = runAlone w n p t"
proof (induction n arbitrary: p s t)
  case 0
  then show ?case by (cases p) simp_all
next
  case (Suc n)
  show ?case
  proof (cases p)
    case (Pending ep ps page repos)
    obtain a s1 where rs: "resume w p s = (a, s1)" by (cases "resume w p s")
    obtain b t1 where rt: "resume w p t = (b, t1)" by (cases "resume w p t")
    from resume_same[OF Suc.prems, of w p] rs rt have "a = b" "sameStores s1 t1" by simp_all
    with Suc.IH[of s1 t1 a] rs rt show ?thesis
      unfolding Pending by simp
  qed simp_all
qed

lemma runAlone_settled: "\<not> isPending p \<Longrightarrow> runAlone w n p s = Some p"
  by (cases p) simp_all


lemma githubAPI_send_cases:
  "githubAPI_send endpoint s = (Inl NO_TOKEN, s) \<or>
   githubAPI_send endpoint s = (Inr (requestUrl endpoint), s\<lparr>requests := requests s @ [requestUrl endpoint]\<rparr>)"
  by (simp add: githubAPI_send_def Let_def)

lemma while_runAlone:
  assumes "fetchAllRepositories_while w ep ps page repos s = Some y"
  shows "\<exists>n. runAlone w n (fst (requestPage ep ps page repos s)) (snd (requestPage ep ps page repos s))
             = Some (case fst y of Inl e \<Rightarrow> Rejected e | Inr rs \<Rightarrow> Fulfilled (map toRepo rs))"
  using assms
proof (induction w ep ps page repos s y rule: fetchAllRepositories_while.raw_induct[rotated, consumes 1])
  case (1 rec w ep ps page repos s y)
  let ?url = "\<lparr>path = ep, query = queryParams ps page\<rparr>"
  let ?fin = "\<lambda>r. case r of Inl e \<Rightarrow> Rejected e | Inr rs \<Rightarrow> Fulfilled (map toRepo rs)"
  from githubAPI_send_cases[of ?url s] show ?case
  proof
    assume snd: "githubAPI_send ?url s = (Inl NO_TOKEN, s)"
    then have "githubAPI (repos_net w) ?url s = (Inl NO_TOKEN, s)"
      by (simp add: githubAPI_halves)
    with 1(2) have "y = (Inl NO_TOKEN, s)" by simp
    moreover have "requestPage ep ps page repos s = (Rejected NO_TOKEN, s)"
      by (simp add: requestPage_def snd)
    ultimately show ?thesis by simp
  next
    let ?s0 = "s\<lparr>requests := requests s @ [requestUrl ?url]\<rparr>"
    assume snd: "githubAPI_send ?url s = (Inr (requestUrl ?url), ?s0)"
    then have rp: "requestPage ep ps page repos s = (Pending ep ps page repos, ?s0)"
      by (simp add: requestPage_def)
    obtain b s1 where rc: "githubAPI_receive (repos_net w (requestUrl ?url)) ?s0 = (b, s1)"
      by (cases "githubAPI_receive (repos_net w (requestUrl ?url)) ?s0")
    have api: "githubAPI (repos_net w) ?url s = (b, s1)"
      by (simp add: githubAPI_halves snd rc)
    show ?thesis
    proof (cases b)
      case (Inl e)
      with 1(2) api have "y = (Inl e, s1)" by simp
      moreover have "resume w (Pending ep ps page repos) ?s0 = (Rejected e, s1)"
        by (simp add: resume_Pending rc Inl)
      ultimately have "runAlone w (Suc 0) (Pending ep ps page repos) ?s0 = Some (?fin (fst y))"
        by simp
      then show ?thesis unfolding rp by (intro exI[of _ "Suc 0"]) simp
    next
      case (Inr pageRepos)
      show ?thesis
      proof (cases "length pageRepos = 0 \<or> length pageRepos < perPage")
        case True
        then have "resume w (Pending ep ps page repos) ?s0 = (?fin (fst y), s1)"
          using 1(2) api Inr by (auto simp: resume_Pending rc)
        then have "runAlone w (Suc 0) (Pending ep ps page repos) ?s0 = Some (?fin (fst y))"
          by (auto split: sum.splits)
        then show ?thesis unfolding rp by (intro exI[of _ "Suc 0"]) simp
      next
        case False
        then have "rec w ep ps (page + 1) (repos @ pageRepos) s1 = Some y"
          using 1(2) api Inr by simp
        from 1(1)[OF this] obtain n where
          n: "runAlone w n (fst (requestPage ep ps (page + 1) (repos @ pageRepos) s1))
                (snd (requestPage ep ps (page + 1) (repos @ pageRepos) s1)) = Some (?fin (fst y))"
          by blast
        have "resume w (Pending ep ps page repos) ?s0
              = requestPage ep ps (page + 1) (repos @ pageRepos) s1"
          using False by (simp add: resume_Pending rc Inr del: resume.simps)
        then have "runAlone w (Suc n) (Pending ep ps page repos) ?s0 = Some (?fin (fst y))"
          using n by (simp add: case_prod_beta del: resume.simps)
        then show ?thesis unfolding rp by (intro exI[of _ "Suc n"]) simp
      qed
    qed
  qed
qed

lemma fetchOrganizationRepositories_runAlone:
  assumes "fetchOrganizationRepositories w orgLogin s = Some (r, s')"
  shows "\<exists>n. runAlone w n (fst (fetchOrganizationRepositories_call orgLogin s)) s = Some (settle r)"
proof -
  let ?ep = "''/orgs/'' @ orgLogin @ ''/repos''"
  let ?ps = "[(''type'', QS ''all''), (''sort'', QS ''updated'')]"
  from assms obtain r0 where
    w: "fetchAllRepositories_while w ?ep ?ps 1 [] s = Some (r0, s')"
    and r: "r = (case r0 of Inl e \<Rightarrow> Inl e | Inr rs \<Rightarrow> Inr (map toRepo rs))"
    by (auto simp: fetchOrganizationRepositories_def fetchAllRepositories_def andThen_Some Let_def)
  from while_runAlone[OF w] obtain n where
    "runAlone w n (fst (requestPage ?ep ?ps 1 [] s)) (snd (requestPage ?ep ?ps 1 [] s))
       = Some (case r0 of Inl e \<Rightarrow> Rejected e | Inr rs \<Rightarrow> Fulfilled (map toRepo rs))"
    by auto
  then have "runAlone w n (fst (fetchOrganizationRepositories_call orgLogin s)) s = Some (settle r)"
    using runAlone_same[OF requestPage_stores[of ?ep ?ps 1 "[]" s], of w n]
    by (simp add: call_requestPage r settle_def split: sum.splits)
  then show ?thesis ..
qed

lemma orgReposPromises_calls:
  assumes "orgReposPromises orgs s = (ps, s')"
  shows "ps = map (\<lambda>org. fst (fetchOrganizationRepositories_call (org_login org) s)) orgs
         \<and> sameStores s' s"
  using assms
proof (induction orgs arbitrary: s ps s')
  case Nil
  then show ?case by simp
next
  case (Cons org orgs)
  obtain p s1 where c: "fetchOrganizationRepositories_call (org_login org) s = (p, s1)"
    by (cases "fetchOrganizationRepositories_call (org_login org) s")
  obtain qs s2 where r: "orgReposPromises orgs s1 = (qs, s2)"
    by (cases "orgReposPromises orgs s1")
  from c have s1: "sameStores s1 s"
    using requestPage_stores[of _ _ _ _ s] by (auto simp: call_requestPage dest: sndI)
  from Cons.IH[OF r] have qs: "qs = map (\<lambda>org. fst (fetchOrganizationRepositories_call (org_login org) s1)) orgs"
    and s2: "sameStores s2 s1" by simp_all
  have "fst (fetchOrganizationRepositories_call l s1) = fst (fetchOrganizationRepositories_call l s)" for l
    using requestPage_same[OF s1] by (simp add: call_requestPage)
  with qs Cons.prems c r s1 s2 show ?case
    by (auto intro: sameStores_trans)
qed


lemma runAlone_zero_pending: "isPending p \<Longrightarrow> runAlone w 0 p s = None"
  by (cases p) simp_all

lemma runAlone_Suc_pending:
  "isPending p \<Longrightarrow> runAlone w (Suc n) p s = runAlone w n (fst (resume w p s)) (snd (resume w p s))"
  by (cases p) (simp_all add: case_prod_beta del: resume.simps)

lemma awaitAll_step:
  assumes "pendingIndices ps \<noteq> []"
  shows "awaitAll w ps s
         = awaitAll w
             (ps[pendingIndices ps ! (arrival w (map (\<lambda>j. requestOf (ps ! j)) (pendingIndices ps))
                                       mod length (pendingIndices ps))
                 := fst (resume w (ps ! (pendingIndices ps ! (arrival w (map (\<lambda>j. requestOf (ps ! j)) (pendingIndices ps))
                                       mod length (pendingIndices ps)))) s)])
             (snd (resume w (ps ! (pendingIndices ps ! (arrival w (map (\<lambda>j. requestOf (ps ! j)) (pendingIndices ps))
                                       mod length (pendingIndices ps)))) s))"
  using assms
  by (subst awaitAll.simps) (simp add: Let_def case_prod_beta del: resume.simps)

lemma awaitAll_runAlone:
  assumes no401: "\<forall>u. not401 (repos_net w u)"
  shows "length ns = length ps \<Longrightarrow> length qs = length ps \<Longrightarrow> sameStores s s0 \<Longrightarrow>
         (\<forall>i<length ps. runAlone w (ns ! i) (ps ! i) s0 = Some (qs ! i)) \<Longrightarrow>
         \<exists>s'. awaitAll w ps s = Some (qs, s') \<and> sameStores s' s0"
proof (induction "sum_list ns" arbitrary: ns ps s rule: less_induct)
  case less
  show ?case
  proof (cases "pendingIndices ps = []")
    case True
    then have settled: "\<forall>p\<in>set ps. \<not> isPending p" by (simp add: pendingIndices_empty_iff)
    have "qs ! i = ps ! i" if "i < length ps" for i
    proof -
      from that settled have "\<not> isPending (ps ! i)" by simp
      from runAlone_settled[OF this, of w "ns ! i" s0] less.prems(4) that show ?thesis by simp
    qed
    with less.prems(2) have "qs = ps" by (simp add: nth_equalityI)
    with True less.prems(3) show ?thesis by (simp add: awaitAll_done)
  next
    case False
    define pending where "pending = pendingIndices ps"
    define i where "i = pending ! (arrival w (map (\<lambda>j. requestOf (ps ! j)) pending) mod length pending)"
    from False have "i \<in> set pending"
      unfolding i_def pending_def by (intro nth_mem) simp
    then have i: "i < length ps" "isPending (ps ! i)"
      by (auto simp: pending_def pendingIndices_def)
    define p where "p = fst (resume w (ps ! i) s)"
    define s1 where "s1 = snd (resume w (ps ! i) s)"
    from less.prems(4) i have run: "runAlone w (ns ! i) (ps ! i) s0 = Some (qs ! i)" by simp
    then obtain m where m: "ns ! i = Suc m"
      using runAlone_zero_pending[OF i(2), of w s0] by (cases "ns ! i") simp_all
    have same: "fst (resume w (ps ! i) s0) = p"
      and st: "sameStores (snd (resume w (ps ! i) s0)) s0"
      using resume_same[OF less.prems(3), of w "ps ! i"] resume_not401[OF no401, of "ps ! i" s0]
      by (simp_all add: p_def)
    have step: "runAlone w m p s0 = Some (qs ! i)"
      using run runAlone_same[OF st, of w m p]
      by (simp add: m runAlone_Suc_pending[OF i(2)] same)
    have s1: "sameStores s1 s0"
      using resume_not401[OF no401, of "ps ! i" s] less.prems(3)
      unfolding s1_def by (rule sameStores_trans)
    have "ns ! i \<in> set ns" using i(1) less.prems(1) by simp
    from member_le_sum_list[OF this] have pos: "Suc m \<le> sum_list ns" by (simp add: m)
    have dec: "sum_list (ns[i := m]) < sum_list ns"
      using i(1) less.prems(1) m pos by (simp add: sum_list_update)
    have all: "\<forall>j<length (ps[i := p]). runAlone w (ns[i := m] ! j) (ps[i := p] ! j) s0 = Some (qs ! j)"
      using less.prems(4) step i(1) less.prems(1) by (auto simp: nth_list_update)
    from less.hyps[OF dec _ _ s1 all] less.prems(1,2)
    obtain s' where "awaitAll w (ps[i := p]) s1 = Some (qs, s')" "sameStores s' s0"
      by auto
    moreover have "awaitAll w ps s = awaitAll w (ps[i := p]) s1"
      unfolding p_def s1_def i_def pending_def by (rule awaitAll_step[OF False])
    ultimately show ?thesis by auto
  qed
qed

lemma awaitAll_independent:
  assumes no401: "\<forall>u. not401 (repos_net w u)"
    and each: "\<forall>org\<in>set organizations. \<exists>s'.
                 fetchOrganizationRepositories w (org_login org) s2 = Some (outcome (org_login org), s')"
    and prom: "orgReposPromises organizations s2 = (promises, s3)"
  shows "\<exists>s4. awaitAll w promises s3
               = Some (map (\<lambda>org. settle (outcome (org_login org))) organizations, s4)
             \<and> sameStores s4 s2"
proof -
  from orgReposPromises_calls[OF prom]
  have ps: "promises = map (\<lambda>org. fst (fetchOrganizationRepositories_call (org_login org) s2)) organizations"
    and s3: "sameStores s3 s2" by simp_all
  have "\<forall>i<length organizations. \<exists>n. runAlone w n (promises ! i) s2
          = Some (settle (outcome (org_login (organizations ! i))))"
  proof (intro allI impI)
    fix i assume i: "i < length organizations"
    with each obtain s' where
      "fetchOrganizationRepositories w (org_login (organizations ! i)) s2
         = Some (outcome (org_login (organizations ! i)), s')"
      using nth_mem by blast
    from fetchOrganizationRepositories_runAlone[OF this] i
    show "\<exists>n. runAlone w n (promises ! i) s2 = Some (settle (outcome (org_login (organizations ! i))))"
      by (simp add: ps)
  qed
  then obtain f where f: "\<forall>i<length organizations. runAlone w (f i) (promises ! i) s2
          = Some (settle (outcome (org_login (organizations ! i))))"
    by metis
  let ?ns = "map f [0..<length organizations]"
  let ?qs = "map (\<lambda>org. settle (outcome (org_login org))) organizations"
  have len: "length promises = length organizations" by (simp add: ps)
  have "\<forall>i<length promises. runAlone w (?ns ! i) (promises ! i) s2 = Some (?qs ! i)"
    using f len by simp
  from awaitAll_runAlone[OF no401, of ?ns promises ?qs s3 s2, OF _ _ s3 this] len
  show ?thesis by simp
qed











lemma caught_settle:
  "caught (settle r) = (case r of Inl e \<Rightarrow> [] | Inr repos \<Rightarrow> repos)"
  by (simp add: settle_def split: sum.splits)

lemma fetchAllUserRepositories_independent:
  assumes user: "fetchUserRepositories w s = Some (Inr userRepos, s1)"
    and orgs: "initOrganizations w False s1 = (Inr organizations, s2)"
    and no401: "\<forall>u. not401 (repos_net w u)"
    and each: "\<forall>org\<in>set organizations. \<exists>s'.
                 fetchOrganizationRepositories w (org_login org) s2 = Some (outcome (org_login org), s')"
  shows "\<exists>s5. fetchAllUserRepositories w s
               = Some (Inr (uniqueRepos (userRepos @ concat (map (\<lambda>org.
                    case outcome (org_login org) of Inl e \<Rightarrow> [] | Inr repos \<Rightarrow> repos)
                    organizations))), s5)"
proof -
  obtain promises s3 where prom: "orgReposPromises organizations s2 = (promises, s3)"
    by (cases "orgReposPromises organizations s2")
  from awaitAll_independent[OF no401 each prom] obtain s4 where
    "awaitAll w promises s3 = Some (map (\<lambda>org. settle (outcome (org_login org))) organizations, s4)"
    by blast
  then show ?thesis
    by (simp add: fetchAllUserRepositories_unfold[OF user orgs prom] comp_def caught_settle)
qed

lemma fetchAllUserRepositories_settled:
  assumes user: "fetchUserRepositories w s = Some (Inr userRepos, s1)"
    and orgs: "initOrganizations w False s1 = (Inr organizations, s2)"
    and prom: "orgReposPromises organizations s2 = (promises, s3)"
    and await: "awaitAll w promises s3 = Some (settled, s4)"
  shows "fetchAllUserRepositories w s
         = Some (Inr (uniqueRepos (userRepos @ concat (map caught settled))), s4)"
  by (simp add: fetchAllUserRepositories_unfold[OF user orgs prom] await)



subsection \<open>Runs of the aggregate fetch\<close>

lemma fetchAllRepositories_single:
  assumes "truthy (getStoredPAT s)"
    and "answers (repos_net w (pageRequest endpoint params 1)) b" and "length b < 100"
  shows "fetchAllRepositories w endpoint params s
         = Some (Inr b, s\<lparr>requests := requests s @ [pageRequest endpoint params 1]\<rparr>)"
proof -
  have a: "\<forall>i. (1::nat) \<le> i \<and> i \<le> 1 + 0 \<longrightarrow> answers (repos_net w (pageRequest endpoint params i)) b"
    using assms(2) by (auto simp: le_antisym)
  have f: "\<forall>i. (1::nat) \<le> i \<and> i < 1 + 0 \<longrightarrow> perPage \<le> length b" by simp
  have l: "length b < perPage" using assms(3) by (simp add: perPage_def)
  from fetchAllRepositories_while_run[of s 1 0 w endpoint params "\<lambda>i. b" "[]", OF assms(1) a f l]
  show ?thesis by (simp add: fetchAllRepositories_def)
qed

lemma fetchUserRepositories_exState:
  assumes "repos_net w (pageRequest ''/user/repos'' userParams 1) = Http 200 None b"
    and "length b < 100"
  shows "fetchUserRepositories w exState = Some (Inr (map toRepo b), orgState1)"
  using fetchAllRepositories_single[OF exState_PAT, of w "''/user/repos''" userParams b] assms
  by (simp add: fetchUserRepositories_def userParams_def[symmetric] answers_def
        andThen_def orgState1_def) (simp add: exState_def)

lemma orgState1_PAT: "truthy (getStoredPAT orgState1)"
  by (simp add: orgState1_def exState_PAT)

lemma initOrganizations_orgState1:
  assumes net: "orgs_net w (requestUrl \<lparr>path = ''/user/orgs'', query = []\<rparr>) = Http 200 None aos"
    and q: "\<And>st k v. quota w st k v" and n: "now w = 2000000"
    and os: "os = map (\<lambda>org. \<lparr>org_id = apiorg_id org, org_login = apiorg_login org,
                             org_avatar_url = apiorg_avatar_url org,
                             org_description =
                               (case apiorg_description org of
                                  None \<Rightarrow> [] | Some d \<Rightarrow> d),
                             org_url = apiorg_url org\<rparr>) aos"
  shows "initOrganizations w False orgState1
         = (Inr os,
            (withLocal ORGANIZATIONS_TIMESTAMP (Num 2000000)
               (withLocal ORGANIZATIONS (OrgsDoc os) exState))
            \<lparr>requests := [pageRequest ''/user/repos'' userParams 1,
                          requestUrl \<lparr>path = ''/user/orgs'', query = []\<rparr>]\<rparr>)"
proof -
  have act: "getActiveStorage orgState1 = Local"
    by (simp add: getActiveStorage_def orgState1_def exState_def)
  have inv: "\<not> isOrganizationsCacheValid w orgState1"
    by (simp add: isOrganizationsCacheValid_def act store_def)
       (simp add: orgState1_def exState_def ORGANIZATIONS_TIMESTAMP_def PAT_def)
  have fetch: "fetchOrganizations w orgState1
       = (Inr os,
          orgState1\<lparr>requests := requests orgState1 @ [requestUrl \<lparr>path = ''/user/orgs'', query = []\<rparr>]\<rparr>)"
    using githubAPI_ok[OF orgState1_PAT, of "orgs_net w" "\<lparr>path = ''/user/orgs'', query = []\<rparr>" aos]
    by (simp add: fetchOrganizations_def answers_def net os)
  have store: "storeOrganizations w os
          (orgState1\<lparr>requests := requests orgState1 @ [requestUrl \<lparr>path = ''/user/orgs'', query = []\<rparr>]\<rparr>)
        = (Inr (),
            (withLocal ORGANIZATIONS_TIMESTAMP (Num 2000000)
               (withLocal ORGANIZATIONS (OrgsDoc os) exState))
            \<lparr>requests := [pageRequest ''/user/repos'' userParams 1,
                          requestUrl \<lparr>path = ''/user/orgs'', query = []\<rparr>]\<rparr>)"
    by (simp add: storeOrganizations_def setItem_def q n getActiveStorage_def store_def put_store_def)
       (simp add: orgState1_def withLocal_def exState_def)
  show ?thesis
    by (simp add: initOrganizations_def requireAuth_present[OF orgState1_PAT] inv fetch store)
qed


lemma mergeState2_PAT: "truthy (getStoredPAT mergeState2)"
  by (simp add: mergeState2_def getStoredPAT_def getEither_def withLocal_def exState_def
        PAT_def ORGANIZATIONS_def ORGANIZATIONS_TIMESTAMP_def)

lemma call_with_token:
  assumes "truthy (getStoredPAT s)"
  shows "fetchOrganizationRepositories_call orgLogin s
         = (Pending (''/orgs/'' @ orgLogin @ ''/repos'') orgParams 1 [],
            s\<lparr>requests := requests s @ [pageRequest (''/orgs/'' @ orgLogin @ ''/repos'') orgParams 1]\<rparr>)"
  using assms
  by (simp add: fetchOrganizationRepositories_call_def githubAPI_send_def Let_def
        orgParams_def pageRequest_def)


lemma mergeWorld_promises:
  "orgReposPromises [exOrg 11 ''org-y''] mergeState2
   = ([Pending ''/orgs/org-y/repos'' orgParams 1 []], mergeState3)"
  using call_with_token[OF mergeState2_PAT, of "''org-y''"]
  by (simp add: exOrg_def mergeState3_def)

lemma resume_short_page:
  assumes "repos_net w (pageRequest endpoint params page) = Http 200 None b"
    and "length b < 100"
  shows "resume w (Pending endpoint params page repos) s = (Fulfilled (map toRepo (repos @ b)), s)"
  using assms
  by (simp add: githubAPI_receive_def pageRequest_def perPage_def)




lemma pendingIndices_P: "pendingIndices [Pending e f g h] = [0]"
  by (simp add: pendingIndices_def)


lemma mergeWorld_await:
  "awaitAll mergeWorld [Pending ''/orgs/org-y/repos'' orgParams 1 []] mergeState3
   = Some ([Fulfilled [exRepo 2 ''b2'', exRepo 3 ''c'']], mergeState3)"
proof -
  have y: "repos_net mergeWorld (pageRequest ''/orgs/org-y/repos'' orgParams 1)
           = Http 200 None [exApiRepo 2 ''b2'', exApiRepo 3 ''c'']"
    by (simp add: mergeWorld_def pageRequest_def requestUrl_def)
  have r: "resume mergeWorld (Pending ''/orgs/org-y/repos'' orgParams 1 []) mergeState3
            = (Fulfilled [exRepo 2 ''b2'', exRepo 3 ''c''], mergeState3)"
    using resume_short_page[OF y, of "[]" mergeState3] by (simp add: exRepo_def del: resume.simps)
  have p0: "pendingIndices [Fulfilled [exRepo 2 ''b2'', exRepo 3 ''c'']] = []"
    by (simp add: pendingIndices_def)
  have step: "awaitAll mergeWorld [Pending ''/orgs/org-y/repos'' orgParams 1 []] mergeState3
    = awaitAll mergeWorld [Fulfilled [exRepo 2 ''b2'', exRepo 3 ''c'']] mergeState3"
    by (subst awaitAll_step) (simp_all add: pendingIndices_P r del: resume.simps One_nat_def)
  show ?thesis
    by (simp only: step awaitAll_done[OF p0])
qed



lemma exRepo_id: "repo_id (exRepo i n) = i"
  by (simp add: exRepo_def toRepo_def exApiRepo_def)















lemma mergeWorld_user:
  "fetchUserRepositories mergeWorld exState
   = Some (Inr [exRepo 1 ''a'', exRepo 2 ''b''], orgState1)"
  using fetchUserRepositories_exState[of mergeWorld "[exApiRepo 1 ''a'', exApiRepo 2 ''b'']"]
  by (simp add: mergeWorld_def pageRequest_def requestUrl_def exRepo_def)

lemma mergeWorld_orgs:
  "initOrganizations mergeWorld False orgState1 = (Inr [exOrg 11 ''org-y''], mergeState2)"
  unfolding mergeState2_def
  by (rule initOrganizations_orgState1[where aos = "[exApiOrg 11 ''org-y'']"])
     (simp_all add: mergeWorld_def exWorld_def exApiOrg_def exOrg_def)

lemma mergeWorld_orgY:
  "map_option fst (fetchOrganizationRepositories mergeWorld ''org-y'' mergeState2)
   = Some (Inr [exRepo 2 ''b2'', exRepo 3 ''c''])"
  using fetchAllRepositories_single[OF mergeState2_PAT, of mergeWorld "''/orgs/org-y/repos''" orgParams
          "[exApiRepo 2 ''b2'', exApiRepo 3 ''c'']"]
  by (simp add: fetchOrganizationRepositories_def orgParams_def[symmetric] andThen_def answers_def
        mergeWorld_def pageRequest_def requestUrl_def exRepo_def)

lemma mergeWorld_not401: "\<forall>u. not401 (repos_net mergeWorld u)"
  by (simp add: mergeWorld_def not401_def)

lemma uniqueRepos_merge:
  "distinct (map repo_id (uniqueRepos (userRepos @ orgRepos)))
   \<and> set (map repo_id (uniqueRepos (userRepos @ orgRepos)))
       = set (map repo_id userRepos) \<union> set (map repo_id orgRepos)
   \<and> (\<forall>i. find (\<lambda>r. repo_id r = i) (uniqueRepos (userRepos @ orgRepos))
          = (case find (\<lambda>r. repo_id r = i) (rev orgRepos) of
               Some r \<Rightarrow> Some r
             | None \<Rightarrow> find (\<lambda>r. repo_id r = i) (rev userRepos)))"
proof (intro conjI allI)
  show "distinct (map repo_id (uniqueRepos (userRepos @ orgRepos)))"
    by (rule uniqueRepos_distinct)
  show "set (map repo_id (uniqueRepos (userRepos @ orgRepos)))
          = set (map repo_id userRepos) \<union> set (map repo_id orgRepos)"
    by (simp only: uniqueRepos_set_ids map_append set_append)
  show "find (\<lambda>r. repo_id r = i) (uniqueRepos (userRepos @ orgRepos))
          = (case find (\<lambda>r. repo_id r = i) (rev orgRepos) of
               Some r \<Rightarrow> Some r
             | None \<Rightarrow> find (\<lambda>r. repo_id r = i) (rev userRepos))" for i
    by (simp only: uniqueRepos_find rev_append find_append_case)
qed

lemma uniqueRepos_four:
  assumes "repo_id a = 1" "repo_id b = 2" "repo_id b2 = 2" "repo_id c = 3"
  shows "uniqueRepos ([a, b] @ concat [[b2, c]]) = [a, b2, c]"
  using assms by (simp add: uniqueRepos_def newMap_def)

text \<open>
  Claim C4. \<^verbatim>\<open>fetchAllUserRepositories\<close> merges the user's repositories with the
  lists that the organizations' promises have settled to, in the order of the
  organizations, the empty list standing for a rejected promise. Its result has
  one entry for every repository id of these lists: the ids of the result are
  pairwise distinct and are exactly the ids of the lists. The entry kept for an id
  is the last one with that id in the order [user repositories] followed by
  [organization repositories], so a copy from an organization list wins over the
  copy from the user list. When the user list is [1:a, 2:b] and the one
  organization list is [2:b2, 3:c], the result is [1:a, 2:b2, 3:c]. When no request
  is answered with status 401, the organization lists are those that the
  organizations' fetches return when run alone, whatever the order in which the
  responses arrive.
\<close>

theorem fetchAllUserRepositories_dedup:
  "fetchUserRepositories w s = Some (Inr userRepos, s1)
   \<and> initOrganizations w False s1 = (Inr organizations, s2) \<longrightarrow>
     (orgReposPromises organizations s2 = (promises, s3)
      \<and> awaitAll w promises s3 = Some (settled, s4) \<longrightarrow>
        (\<exists>result. fetchAllUserRepositories w s = Some (Inr result, s4)
           \<and> distinct (map repo_id result)
           \<and> set (map repo_id result)
               = set (map repo_id userRepos) \<union> set (map repo_id (concat (map caught settled)))
           \<and> (\<forall>i. find (\<lambda>r. repo_id r = i) result
                  = (case find (\<lambda>r. repo_id r = i) (rev (concat (map caught settled))) of
                       Some r \<Rightarrow> Some r
                     | None \<Rightarrow> find (\<lambda>r. repo_id r = i) (rev userRepos)))
           \<and> (repo_id a = 1 \<and> repo_id b = 2 \<and> repo_id b2 = 2 \<and> repo_id c = 3
               \<and> userRepos = [a, b] \<and> map caught settled = [[b2, c]] \<longrightarrow>
               result = [a, b2, c])))
     \<and> ((\<forall>u. not401 (repos_net w u))
         \<and> (\<forall>org\<in>set organizations. \<exists>t.
               fetchOrganizationRepositories w (org_login org) s2
                 = Some (Inr (orgRepos (org_login org)), t)) \<longrightarrow>
        (\<exists>result s5. fetchAllUserRepositories w s = Some (Inr result, s5)
           \<and> distinct (map repo_id result)
           \<and> set (map repo_id result)
               = set (map repo_id userRepos)
                 \<union> set (map repo_id (concat (map (\<lambda>org. orgRepos (org_login org)) organizations)))
           \<and> (\<forall>i. find (\<lambda>r. repo_id r = i) result
                  = (case find (\<lambda>r. repo_id r = i)
                            (rev (concat (map (\<lambda>org. orgRepos (org_login org)) organizations))) of
                       Some r \<Rightarrow> Some r
                     | None \<Rightarrow> find (\<lambda>r. repo_id r = i) (rev userRepos)))))"
proof (intro impI conjI)
  assume a: "fetchUserRepositories w s = Some (Inr userRepos, s1)
             \<and> initOrganizations w False s1 = (Inr organizations, s2)"
  then have user: "fetchUserRepositories w s = Some (Inr userRepos, s1)"
    and orgs: "initOrganizations w False s1 = (Inr organizations, s2)" by simp_all
  {
    assume b: "orgReposPromises organizations s2 = (promises, s3)
               \<and> awaitAll w promises s3 = Some (settled, s4)"
    then have prom: "orgReposPromises organizations s2 = (promises, s3)"
      and await: "awaitAll w promises s3 = Some (settled, s4)" by simp_all
    let ?result = "uniqueRepos (userRepos @ concat (map caught settled))"
    have run: "fetchAllUserRepositories w s = Some (Inr ?result, s4)"
      by (rule fetchAllUserRepositories_settled[OF user orgs prom await])
    have ex: "repo_id a = 1 \<and> repo_id b = 2 \<and> repo_id b2 = 2 \<and> repo_id c = 3
               \<and> userRepos = [a, b] \<and> map caught settled = [[b2, c]] \<longrightarrow>
               ?result = [a, b2, c]"
      using uniqueRepos_four[of a b b2 c] by simp
    show "\<exists>result. fetchAllUserRepositories w s = Some (Inr result, s4)
           \<and> distinct (map repo_id result)
           \<and> set (map repo_id result)
               = set (map repo_id userRepos) \<union> set (map repo_id (concat (map caught settled)))
           \<and> (\<forall>i. find (\<lambda>r. repo_id r = i) result
                  = (case find (\<lambda>r. repo_id r = i) (rev (concat (map caught settled))) of
                       Some r \<Rightarrow> Some r
                     | None \<Rightarrow> find (\<lambda>r. repo_id r = i) (rev userRepos)))
           \<and> (repo_id a = 1 \<and> repo_id b = 2 \<and> repo_id b2 = 2 \<and> repo_id c = 3
               \<and> userRepos = [a, b] \<and> map caught settled = [[b2, c]] \<longrightarrow>
               result = [a, b2, c])"
      using run uniqueRepos_merge[of userRepos "concat (map caught settled)"] ex
      by (intro exI[of _ ?result]) blast
  }
  {
    assume c: "(\<forall>u. not401 (repos_net w u))
         \<and> (\<forall>org\<in>set organizations. \<exists>t.
               fetchOrganizationRepositories w (org_login org) s2
                 = Some (Inr (orgRepos (org_login org)), t))"
    then have no401: "\<forall>u. not401 (repos_net w u)"
      and each: "\<forall>org\<in>set organizations. \<exists>t.
               fetchOrganizationRepositories w (org_login org) s2
                 = Some ((\<lambda>l. Inr (orgRepos l)) (org_login org), t)" by simp_all
    let ?orgRepos = "concat (map (\<lambda>org. orgRepos (org_login org)) organizations)"
    from fetchAllUserRepositories_independent[OF user orgs no401 each]
    obtain s5 where run: "fetchAllUserRepositories w s
        = Some (Inr (uniqueRepos (userRepos @ ?orgRepos)), s5)"
      by auto
    show "\<exists>result s5. fetchAllUserRepositories w s = Some (Inr result, s5)
           \<and> distinct (map repo_id result)
           \<and> set (map repo_id result) = set (map repo_id userRepos) \<union> set (map repo_id ?orgRepos)
           \<and> (\<forall>i. find (\<lambda>r. repo_id r = i) result
                  = (case find (\<lambda>r. repo_id r = i) (rev ?orgRepos) of
                       Some r \<Rightarrow> Some r
                     | None \<Rightarrow> find (\<lambda>r. repo_id r = i) (rev userRepos)))"
      using run uniqueRepos_merge[of userRepos ?orgRepos]
      by (intro exI[of _ "uniqueRepos (userRepos @ ?orgRepos)"] exI[of _ s5]) blast
  }
qed

theorem fetchAllUserRepositories_dedup_witness:
  "fetchUserRepositories mergeWorld exState
     = Some (Inr [exRepo 1 ''a'', exRepo 2 ''b''], orgState1)
   \<and> initOrganizations mergeWorld False orgState1 = (Inr [exOrg 11 ''org-y''], mergeState2)
   \<and> orgReposPromises [exOrg 11 ''org-y''] mergeState2
       = ([Pending ''/orgs/org-y/repos'' orgParams 1 []], mergeState3)
   \<and> awaitAll mergeWorld [Pending ''/orgs/org-y/repos'' orgParams 1 []] mergeState3
       = Some ([Fulfilled [exRepo 2 ''b2'', exRepo 3 ''c'']], mergeState3)
   \<and> map repo_id [exRepo 1 ''a'', exRepo 2 ''b'', exRepo 2 ''b2'', exRepo 3 ''c''] = [1, 2, 2, 3]
   \<and> map_option fst (fetchOrganizationRepositories mergeWorld ''org-y'' mergeState2)
       = Some (Inr [exRepo 2 ''b2'', exRepo 3 ''c''])
   \<and> fetchAllUserRepositories mergeWorld exState
       = Some (Inr [exRepo 1 ''a'', exRepo 2 ''b2'', exRepo 3 ''c''], mergeState3)
   \<and> exRepo 2 ''b2'' \<noteq> exRepo 2 ''b''"
proof -
  note T = fetchAllUserRepositories_dedup
  have ids: "map repo_id [exRepo 1 ''a'', exRepo 2 ''b'', exRepo 2 ''b2'', exRepo 3 ''c'']
             = [1, 2, 2, 3]"
    by (simp add: exRepo_id)
  have ex: "repo_id (exRepo 1 ''a'') = 1 \<and> repo_id (exRepo 2 ''b'') = 2
            \<and> repo_id (exRepo 2 ''b2'') = 2 \<and> repo_id (exRepo 3 ''c'') = 3
            \<and> [exRepo 1 ''a'', exRepo 2 ''b''] = [exRepo 1 ''a'', exRepo 2 ''b'']
            \<and> map caught [Fulfilled [exRepo 2 ''b2'', exRepo 3 ''c'']]
                = [[exRepo 2 ''b2'', exRepo 3 ''c'']]"
    by (simp add: exRepo_id)
  from T[where w = mergeWorld and s = exState and a = "exRepo 1 ''a''" and b = "exRepo 2 ''b''"
           and ?b2.0 = "exRepo 2 ''b2''" and c = "exRepo 3 ''c''", THEN mp,
         OF conjI[OF mergeWorld_user mergeWorld_orgs], THEN conjunct1, THEN mp,
         OF conjI[OF mergeWorld_promises mergeWorld_await]]
  obtain result where r: "fetchAllUserRepositories mergeWorld exState = Some (Inr result, mergeState3)"
    and imp: "repo_id (exRepo 1 ''a'') = 1 \<and> repo_id (exRepo 2 ''b'') = 2
            \<and> repo_id (exRepo 2 ''b2'') = 2 \<and> repo_id (exRepo 3 ''c'') = 3
            \<and> [exRepo 1 ''a'', exRepo 2 ''b''] = [exRepo 1 ''a'', exRepo 2 ''b'']
            \<and> map caught [Fulfilled [exRepo 2 ''b2'', exRepo 3 ''c'']]
                = [[exRepo 2 ''b2'', exRepo 3 ''c'']]
         \<longrightarrow> result = [exRepo 1 ''a'', exRepo 2 ''b2'', exRepo 3 ''c'']"
    by blast
  from imp ex have "result = [exRepo 1 ''a'', exRepo 2 ''b2'', exRepo 3 ''c'']"
    by (rule mp)
  with r have run: "fetchAllUserRepositories mergeWorld exState
       = Some (Inr [exRepo 1 ''a'', exRepo 2 ''b2'', exRepo 3 ''c''], mergeState3)"
    by (simp only:)
  have diff: "exRepo 2 ''b2'' \<noteq> exRepo 2 ''b''"
    by (simp add: exRepo_def toRepo_def exApiRepo_def)
  show ?thesis
    by (intro conjI mergeWorld_user mergeWorld_orgs mergeWorld_promises mergeWorld_await ids
          mergeWorld_orgY run diff)
qed


end
